theory Spec2Isabelle
  imports Complex_Main "HOL-Library.Word" "HOL-Library.AList" "HOL-Library.Sublist"
begin

unbundle bit_operations_syntax

section \<open>Conventions\<close>

text \<open>
  A JavaScript string is a sequence of UTF-16 code units. The model uses \<open>string\<close>: one
  \<open>char\<close> stands for one code unit below 256, and \<open>of_char\<close> is \<open>charCodeAt\<close>. A value
  of type \<open>T | undefined\<close> is a \<open>T option\<close>. An exception is the \<open>Inl\<close> of a sum.
\<close>

type_synonym error = string

text \<open>Truthiness of a \<open>string | undefined\<close>: \<open>undefined\<close> and the empty string are falsy.\<close>

definition truthy :: "string option \<Rightarrow> bool" where
  "truthy v = (case v of None \<Rightarrow> False | Some s \<Rightarrow> s \<noteq> [])"

text \<open>\<open>a || b\<close> on strings.\<close>

definition orElse :: "string option \<Rightarrow> string \<Rightarrow> string" where
  "orElse v d = (if truthy v then the v else d)"

section \<open>Protocol types (protocol/ldap.ts)\<close>

datatype LDAPResultCode =
    Success
  | OperationsError
  | ProtocolError
  | TimeLimitExceeded
  | SizeLimitExceeded
  | CompareFalse
  | CompareTrue
  | AuthMethodNotSupported
  | StrongerAuthRequired
  | InvalidCredentials
  | InsufficientAccessRights
  | Busy
  | Unavailable
  | UnwillingToPerform
  | LoopDetect
  | NamingViolation
  | ObjectClassViolation
  | NotAllowedOnNonLeaf
  | NotAllowedOnRdn
  | EntryAlreadyExists
  | ObjectClassModsProhibited
  | AffectsMultipleDsas
  | Other

fun resultCodeValue :: "LDAPResultCode \<Rightarrow> nat" where
  "resultCodeValue Success = 0"
| "resultCodeValue OperationsError = 1"
| "resultCodeValue ProtocolError = 2"
| "resultCodeValue TimeLimitExceeded = 3"
| "resultCodeValue SizeLimitExceeded = 4"
| "resultCodeValue CompareFalse = 5"
| "resultCodeValue CompareTrue = 6"
| "resultCodeValue AuthMethodNotSupported = 7"
| "resultCodeValue StrongerAuthRequired = 8"
| "resultCodeValue InvalidCredentials = 49"
| "resultCodeValue InsufficientAccessRights = 50"
| "resultCodeValue Busy = 51"
| "resultCodeValue Unavailable = 52"
| "resultCodeValue UnwillingToPerform = 53"
| "resultCodeValue LoopDetect = 54"
| "resultCodeValue NamingViolation = 64"
| "resultCodeValue ObjectClassViolation = 65"
| "resultCodeValue NotAllowedOnNonLeaf = 66"
| "resultCodeValue NotAllowedOnRdn = 67"
| "resultCodeValue EntryAlreadyExists = 68"
| "resultCodeValue ObjectClassModsProhibited = 69"
| "resultCodeValue AffectsMultipleDsas = 71"
| "resultCodeValue Other = 80"

datatype Authentication =
    SimpleAuthentication (password: string)
  | SaslAuthentication (mechanism: string) (credentials: "8 word list option")

record BindRequest =
  version :: int
  name :: string
  authentication :: Authentication

record BindResponse =
  resultCode :: LDAPResultCode
  matchedDN :: string
  diagnosticMessage :: string

section \<open>UID/GID allocator (services/id\_allocator.ts)\<close>

text \<open>Template literals print a number in decimal: \<open>`${attempt}`\<close>, \<open>String(n)\<close>.\<close>

function digits :: "int \<Rightarrow> string" where
  "digits n = (if n < 10 then [char_of (48 + n)] else digits (n div 10) @ [char_of (48 + n mod 10)])"
  by pat_completeness auto
termination
  by (relation "measure nat") auto

declare digits.simps [simp del]

definition numberToString :: "int \<Rightarrow> string" where
  "numberToString n = (if n < 0 then CHR ''-'' # digits (- n) else digits n)"

definition FNV_OFFSET :: "64 word" where
  "FNV_OFFSET = 0xcbf29ce484222325"

definition FNV_PRIME :: "64 word" where
  "FNV_PRIME = 0x100000001b3"

definition hashToInt :: "string \<Rightarrow> int" where
  "hashToInt input =
     uint (fold (\<lambda>c hash. (hash XOR of_char c) * FNV_PRIME) input FNV_OFFSET AND 0x7fffffff)"

record AllocationResult =
  alloc_id :: int
  hashed :: bool
  collisionCount :: int

record IdAllocatorOptions =
  opt_salt :: string
  opt_retryLimit :: "int option"
  opt_floor :: "int option"
  opt_ceiling :: "int option"
  opt_sequentialStart :: "int option"

record InternalState =
  byKey :: "(string \<times> int) list"
  byId :: "(int \<times> string) list"
  nextSeq :: int
  collisions :: int
  fallbacks :: int

record IdAllocator =
  salt :: string
  retryLimit :: int
  floor' :: int
  ceiling' :: "int option"
  state :: InternalState

definition newIdAllocator :: "IdAllocatorOptions \<Rightarrow> IdAllocator" where
  "newIdAllocator opts =
     (let fl = (case opt_floor opts of None \<Rightarrow> 10000 | Some f \<Rightarrow> f);
          start = (case opt_sequentialStart opts of None \<Rightarrow> fl + 1 | Some s \<Rightarrow> s)
      in \<lparr> salt = opt_salt opts,
           retryLimit = (case opt_retryLimit opts of None \<Rightarrow> 4 | Some r \<Rightarrow> r),
           floor' = fl,
           ceiling' = opt_ceiling opts,
           state = \<lparr> byKey = [], byId = [], nextSeq = start, collisions = 0, fallbacks = 0 \<rparr> \<rparr>)"

definition aboveCeiling :: "IdAllocator \<Rightarrow> int \<Rightarrow> bool" where
  "aboveCeiling this n = (case ceiling' this of None \<Rightarrow> False | Some c \<Rightarrow> c \<noteq> 0 \<and> n > c)"

definition commit :: "string \<Rightarrow> int \<Rightarrow> IdAllocator \<Rightarrow> IdAllocator" where
  "commit key i this =
     this\<lparr> state := (state this)\<lparr> byKey := AList.update key i (byKey (state this)),
                                   byId := AList.update i key (byId (state this)) \<rparr> \<rparr>"

function nextSequential :: "IdAllocator \<Rightarrow> (error + int) \<times> IdAllocator" where
  "nextSequential this =
     (let candidate = nextSeq (state this);
          this' = this\<lparr> state := (state this)\<lparr> nextSeq := candidate + 1 \<rparr> \<rparr>
      in if aboveCeiling this candidate then
           (Inl ''ID allocator sequential ceiling exhausted'', this')
         else if map_of (byId (state this)) candidate \<noteq> None then nextSequential this'
         else (Inr candidate, this'))"
  by pat_completeness auto
termination
proof (relation "measure (\<lambda>this. card {i \<in> fst ` set (byId (state this)). nextSeq (state this) \<le> i})")
  show "wf (measure (\<lambda>this. card {i \<in> fst ` set (byId (state this)). nextSeq (state this) \<le> i}))"
    by simp
next
  fix this :: IdAllocator and x xa
  assume x: "x = nextSeq (state this)"
    and xa: "xa = this\<lparr>state := (state this)\<lparr>nextSeq := x + 1\<rparr>\<rparr>"
    and taken: "map_of (byId (state this)) x \<noteq> None"
  let ?A = "{i \<in> fst ` set (byId (state this)). nextSeq (state this) + 1 \<le> i}"
  let ?B = "{i \<in> fst ` set (byId (state this)). nextSeq (state this) \<le> i}"
  from taken have "x \<in> fst ` set (byId (state this))"
    by (metis map_of_eq_None_iff)
  then have "x \<in> ?B" "x \<notin> ?A" using x by auto
  moreover have "?A \<subseteq> ?B" by auto
  ultimately have "?A \<subset> ?B" by blast
  moreover have "finite ?B" by simp
  ultimately have "card ?A < card ?B" by (rule psubset_card_mono [rotated])
  then show "(xa, this) \<in> measure (\<lambda>this. card {i \<in> fst ` set (byId (state this)). nextSeq (state this) \<le> i})"
    using x xa by simp
qed

declare nextSequential.simps [simp del]

function hashAttempts :: "IdAllocator \<Rightarrow> string \<Rightarrow> int \<Rightarrow> AllocationResult option \<times> IdAllocator" where
  "hashAttempts this key attempt =
     (if attempt \<le> retryLimit this then
        (let hashId = hashToInt (salt this @ '':'' @ numberToString attempt @ '':'' @ key) in
         if hashId \<le> floor' this then hashAttempts this key (attempt + 1)
         else if aboveCeiling this hashId then hashAttempts this key (attempt + 1)
         else
           (let currentKey = map_of (byId (state this)) hashId in
            if \<not> truthy currentKey then
              (Some \<lparr> alloc_id = hashId, hashed = True, collisionCount = attempt \<rparr>,
               commit key hashId this)
            else if currentKey = Some key then
              (Some \<lparr> alloc_id = hashId, hashed = True, collisionCount = attempt \<rparr>, this)
            else
              hashAttempts (this\<lparr> state := (state this)\<lparr> collisions := collisions (state this) + 1 \<rparr> \<rparr>)
                key (attempt + 1)))
      else (None, this))"
  by pat_completeness auto
termination
  by (relation "measure (\<lambda>(this, key, attempt). nat (retryLimit this + 1 - attempt))") auto

declare hashAttempts.simps [simp del]

definition allocate :: "IdAllocator \<Rightarrow> string \<Rightarrow> (error + AllocationResult) \<times> IdAllocator" where
  "allocate this key =
     (case map_of (byKey (state this)) key of
        Some existing \<Rightarrow>
          (Inr \<lparr> alloc_id = existing,
                 hashed = (map_of (byId (state this)) existing = Some key),
                 collisionCount = 0 \<rparr>, this)
      | None \<Rightarrow>
          (case hashAttempts this key 0 of
             (Some r, this1) \<Rightarrow> (Inr r, this1)
           | (None, this1) \<Rightarrow>
               (case nextSequential this1 of
                  (Inl e, this2) \<Rightarrow> (Inl e, this2)
                | (Inr seqId, this2) \<Rightarrow>
                    (Inr \<lparr> alloc_id = seqId, hashed = False, collisionCount = retryLimit this + 1 \<rparr>,
                     commit key seqId
                       (this2\<lparr> state := (state this2)\<lparr> fallbacks := fallbacks (state this2) + 1 \<rparr> \<rparr>)))))"


section \<open>Snapshot builder (services/snapshot\_builder.ts, models, adaptors/types.ts)\<close>

record RawUser =
  ru_id :: string
  ru_username :: string
  ru_email :: "string option"
  ru_enabled :: bool
  ru_displayName :: "string option"

record RawGroup =
  rg_id :: string
  rg_name :: string
  rg_description :: "string option"
  rg_members :: "string list option"

datatype FeatureFlag = synthetic_primary_group | mirror_nested_groups

fun flagName :: "FeatureFlag \<Rightarrow> string" where
  "flagName synthetic_primary_group = ''synthetic_primary_group''"
| "flagName mirror_nested_groups = ''mirror_nested_groups''"

record User =
  u_id :: string
  username :: string
  displayName :: string
  email :: "string option"
  active :: bool
  posixUid :: int
  primaryGroupId :: string
  memberGroupIds :: "string list"
  createdAt :: "string option"
  updatedAt :: "string option"

record Group =
  g_id :: string
  g_name :: string
  g_description :: "string option"
  memberUserIds :: "string list"
  g_memberGroupIds :: "string list"
  posixGid :: int
  isSynthetic :: bool
  truncated :: "bool option"

record Snapshot =
  users :: "User list"
  groups :: "Group list"
  generatedAt :: string
  sequence :: int
  featureFlags :: "string list"

record SnapshotBuilderOptions =
  opt_uidAllocator :: IdAllocator
  opt_gidAllocator :: IdAllocator
  opt_enabledFeatures :: "FeatureFlag list"
  opt_maxGroupMembers :: "int option"

text \<open>
  The builder object. Its two allocators are mutable objects it holds; the model keeps
  their current value in the builder. \<open>enabledFeatures\<close> is a \<open>Set\<close>, kept as the list
  of its elements in insertion order.
\<close>

record SnapshotBuilder =
  uidAllocator :: IdAllocator
  gidAllocator :: IdAllocator
  enabledFeatures :: "FeatureFlag list"
  maxGroupMembers :: int
  sequenceCounter :: int

text \<open>\<open>new Set(xs)\<close>: the first occurrence of each element, in order.\<close>

definition newSet :: "'a list \<Rightarrow> 'a list" where
  "newSet xs = fold (\<lambda>x s. if x \<in> set s then s else s @ [x]) xs []"

definition newSnapshotBuilder :: "SnapshotBuilderOptions \<Rightarrow> SnapshotBuilder" where
  "newSnapshotBuilder options =
     \<lparr> uidAllocator = opt_uidAllocator options,
       gidAllocator = opt_gidAllocator options,
       enabledFeatures = newSet (opt_enabledFeatures options),
       maxGroupMembers = (case opt_maxGroupMembers options of None \<Rightarrow> 5000 | Some m \<Rightarrow> m),
       sequenceCounter = 0 \<rparr>"

definition getSyntheticPrimaryGroupId :: "SnapshotBuilder \<Rightarrow> string \<Rightarrow> string" where
  "getSyntheticPrimaryGroupId this userId =
     (if synthetic_primary_group \<in> set (enabledFeatures this) then ''synthetic:'' @ userId
      else ''users'')"

text \<open>
  The \<open>.map\<close> over the enabled raw users. Each element calls the UID allocator and reads
  the clock twice (\<open>createdAt\<close>, \<open>updatedAt\<close>); \<open>clock k\<close> is the \<open>k\<close>-th value that
  \<open>new Date().toISOString()\<close> returns during the build. An allocator exception ends
  the build; the allocator keeps what it had committed.
\<close>

fun convertUsers ::
  "SnapshotBuilder \<Rightarrow> (nat \<Rightarrow> string) \<Rightarrow> nat \<Rightarrow> RawUser list \<Rightarrow> IdAllocator
     \<Rightarrow> (error + User list) \<times> IdAllocator" where
  "convertUsers this clock k [] alloc = (Inr [], alloc)"
| "convertUsers this clock k (user # rest) alloc =
     (case allocate alloc (''user:'' @ ru_id user) of
        (Inl e, alloc1) \<Rightarrow> (Inl e, alloc1)
      | (Inr r, alloc1) \<Rightarrow>
          (case convertUsers this clock (k + 2) rest alloc1 of
             (Inl e, alloc2) \<Rightarrow> (Inl e, alloc2)
           | (Inr us, alloc2) \<Rightarrow>
               (Inr (\<lparr> u_id = ru_id user,
                       username = ru_username user,
                       displayName = orElse (ru_displayName user) (ru_username user),
                       email = ru_email user,
                       active = ru_enabled user,
                       posixUid = alloc_id r,
                       primaryGroupId = getSyntheticPrimaryGroupId this (ru_id user),
                       memberGroupIds = [],
                       createdAt = Some (clock k),
                       updatedAt = Some (clock (k + 1)) \<rparr> # us), alloc2)))"

text \<open>\<open>xs.slice(0, e)\<close> for an integer \<open>e\<close>: a negative end counts from the end.\<close>

definition slice0 :: "'a list \<Rightarrow> int \<Rightarrow> 'a list" where
  "slice0 xs e = (if e < 0 then take (nat (int (length xs) + e)) xs else take (nat e) xs)"

text \<open>
  \<open>userIdMap.get(userId)\<close> followed by \<open>user.memberGroupIds.push(group.id)\<close>. The map
  is built from the array in order, so for a repeated id it holds the last user with that
  id; the objects are shared with the array, so the push is seen there.
\<close>

fun pushGroupId :: "string \<Rightarrow> string \<Rightarrow> User list \<Rightarrow> User list" where
  "pushGroupId userId gid [] = []"
| "pushGroupId userId gid (u # us) =
     (if userId \<in> u_id ` set us then u # pushGroupId userId gid us
      else if u_id u = userId then u\<lparr> memberGroupIds := memberGroupIds u @ [gid] \<rparr> # us
      else u # us)"

fun addMemberships :: "string \<Rightarrow> string list \<Rightarrow> User list \<Rightarrow> User list" where
  "addMemberships gid [] us = us"
| "addMemberships gid (userId # rest) us = addMemberships gid rest (pushGroupId userId gid us)"

fun processGroups ::
  "SnapshotBuilder \<Rightarrow> RawGroup list \<Rightarrow> User list \<Rightarrow> IdAllocator
     \<Rightarrow> (error + Group list \<times> User list) \<times> IdAllocator" where
  "processGroups this [] us alloc = (Inr ([], us), alloc)"
| "processGroups this (grp # rest) us alloc =
     (case allocate alloc (''group:'' @ rg_id grp) of
        (Inl e, alloc1) \<Rightarrow> (Inl e, alloc1)
      | (Inr r, alloc1) \<Rightarrow>
          (let memberUserIds = (case rg_members grp of None \<Rightarrow> [] | Some ms \<Rightarrow> ms);
               truncated = (int (length memberUserIds) > maxGroupMembers this);
               finalMemberIds = (if truncated then slice0 memberUserIds (maxGroupMembers this)
                                 else memberUserIds);
               us1 = addMemberships (rg_id grp) finalMemberIds us
           in case processGroups this rest us1 alloc1 of
                (Inl e, alloc2) \<Rightarrow> (Inl e, alloc2)
              | (Inr (gs, us2), alloc2) \<Rightarrow>
                  (Inr (\<lparr> g_id = rg_id grp,
                          g_name = rg_name grp,
                          g_description = rg_description grp,
                          memberUserIds = finalMemberIds,
                          g_memberGroupIds = [],
                          posixGid = alloc_id r,
                          isSynthetic = False,
                          truncated = Some truncated \<rparr> # gs, us2), alloc2)))"

fun createSyntheticPrimaryGroups ::
  "User list \<Rightarrow> IdAllocator \<Rightarrow> (error + Group list) \<times> IdAllocator" where
  "createSyntheticPrimaryGroups [] alloc = (Inr [], alloc)"
| "createSyntheticPrimaryGroups (user # rest) alloc =
     (case allocate alloc (''synthetic:'' @ u_id user) of
        (Inl e, alloc1) \<Rightarrow> (Inl e, alloc1)
      | (Inr r, alloc1) \<Rightarrow>
          (case createSyntheticPrimaryGroups rest alloc1 of
             (Inl e, alloc2) \<Rightarrow> (Inl e, alloc2)
           | (Inr gs, alloc2) \<Rightarrow>
               (Inr (\<lparr> g_id = ''synthetic:'' @ u_id user,
                       g_name = username user @ ''-primary'',
                       g_description = Some (''Primary group for '' @ username user),
                       memberUserIds = [u_id user],
                       g_memberGroupIds = [],
                       posixGid = alloc_id r,
                       isSynthetic = True,
                       truncated = Some False \<rparr> # gs), alloc2)))"

text \<open>
  What the adaptor returned to one build: the two fetches (each may reject), which of them
  settles first, and the clock readings. When a fetch rejects, \<open>Promise.all\<close> rejects with
  the reason of the fetch that rejects first, and nothing else runs.
\<close>

record BuildInput =
  fetchUsers :: "error + RawUser list"
  fetchGroups :: "error + RawGroup list"
  groupsSettleFirst :: bool
  clock :: "nat \<Rightarrow> string"

text \<open>\<open>await Promise.all([adaptor.fetchUsers(), adaptor.fetchGroups()])\<close>.\<close>

definition fetchAll :: "BuildInput \<Rightarrow> error + RawUser list \<times> RawGroup list" where
  "fetchAll inp =
     (case (fetchUsers inp, fetchGroups inp) of
        (Inl eu, Inl eg) \<Rightarrow> Inl (if groupsSettleFirst inp then eg else eu)
      | (Inl eu, Inr rawGroups) \<Rightarrow> Inl eu
      | (Inr rawUsers, Inl eg) \<Rightarrow> Inl eg
      | (Inr rawUsers, Inr rawGroups) \<Rightarrow> Inr (rawUsers, rawGroups))"

definition buildSnapshot :: "SnapshotBuilder \<Rightarrow> BuildInput \<Rightarrow> (error + Snapshot) \<times> SnapshotBuilder" where
  "buildSnapshot this inp =
     (case fetchAll inp of
        Inl e \<Rightarrow> (Inl e, this)
      | Inr (rawUsers, rawGroups) \<Rightarrow>
     (case convertUsers this (clock inp) 0 (filter ru_enabled rawUsers) (uidAllocator this) of
        (Inl e, uidA) \<Rightarrow> (Inl e, this\<lparr> uidAllocator := uidA \<rparr>)
      | (Inr us, uidA) \<Rightarrow>
     (case processGroups this rawGroups us (gidAllocator this) of
        (Inl e, gidA) \<Rightarrow> (Inl e, this\<lparr> uidAllocator := uidA, gidAllocator := gidA \<rparr>)
      | (Inr (gs, us1), gidA) \<Rightarrow>
     (case (if synthetic_primary_group \<in> set (enabledFeatures this)
            then createSyntheticPrimaryGroups us1 gidA else (Inr [], gidA)) of
        (Inl e, gidA1) \<Rightarrow> (Inl e, this\<lparr> uidAllocator := uidA, gidAllocator := gidA1 \<rparr>)
      | (Inr syntheticGroups, gidA1) \<Rightarrow>
          (Inr \<lparr> users = us1,
                 groups = gs @ syntheticGroups,
                 generatedAt = clock inp (2 * length us1),
                 sequence = sequenceCounter this + 1,
                 featureFlags = map flagName (enabledFeatures this) \<rparr>,
           this\<lparr> uidAllocator := uidA, gidAllocator := gidA1,
                 sequenceCounter := sequenceCounter this + 1 \<rparr>)))))"

section \<open>JavaScript numbers\<close>

text \<open>
  The delays of the scheduler are JavaScript numbers, that is IEEE 754 doubles. A finite
  double is written \<open>Num r\<close> with \<open>r\<close> its exact value (\<open>Num 0\<close> is plus zero); minus zero,
  the two infinities and NaN are values of their own.
\<close>

datatype JSNumber = NaN | PosInfinity | NegInfinity | NegZero | Num rat

text \<open>The number of binary digits of a positive integer, and the powers of two.\<close>

function bitLength :: "int \<Rightarrow> int" where
  "bitLength n = (if n \<le> 0 then 0 else 1 + bitLength (n div 2))"
  by pat_completeness auto
termination
  by (relation "measure nat") auto

declare bitLength.simps [simp del]

function pow2 :: "int \<Rightarrow> rat" where
  "pow2 e = (if e = 0 then 1 else if e > 0 then 2 * pow2 (e - 1) else pow2 (e + 1) / 2)"
  by pat_completeness auto
termination
  by (relation "measure (\<lambda>e. nat \<bar>e\<bar>)") auto

declare pow2.simps [simp del]

text \<open>The binary exponent of a positive rational \<open>x\<close>: the \<open>e\<close> with \<open>2^e \<le> x < 2^(e+1)\<close>.\<close>

definition binaryExponent :: "rat \<Rightarrow> int" where
  "binaryExponent x =
     (let e = bitLength (fst (quotient_of x)) - bitLength (snd (quotient_of x))
      in if pow2 e \<le> x then e else e - 1)"

definition roundHalfEven :: "rat \<Rightarrow> int" where
  "roundHalfEven q =
     (let f = \<lfloor>q\<rfloor>; d = q - of_int f
      in if d < 1 / 2 then f else if d > 1 / 2 then f + 1 else if even f then f else f + 1)"

text \<open>
  Rounding a non-negative rational to the nearest double, ties to even: 53 significant
  bits, the exponent not below that of the subnormal numbers; \<open>None\<close> when the result
  overflows, that is when it reaches \<open>2^1024\<close> (\<open>2^53\<close> units at exponent 1023).
\<close>

definition roundToDouble :: "rat \<Rightarrow> rat option" where
  "roundToDouble x =
     (if x = 0 then Some 0
      else
        (let e = max (binaryExponent x) (- 1022);
             ulp = pow2 (e - 52);
             n = roundHalfEven (x / ulp)
         in if e > 1023 \<or> (e = 1023 \<and> n \<ge> 9007199254740992) then None
            else Some (of_int n * ulp)))"

definition isNegative :: "JSNumber \<Rightarrow> bool" where
  "isNegative a = (case a of NegInfinity \<Rightarrow> True | NegZero \<Rightarrow> True | Num r \<Rightarrow> r < 0 | _ \<Rightarrow> False)"

definition isInfinite :: "JSNumber \<Rightarrow> bool" where
  "isInfinite a = (a = PosInfinity \<or> a = NegInfinity)"

definition isZero :: "JSNumber \<Rightarrow> bool" where
  "isZero a = (a = NegZero \<or> a = Num 0)"

definition magnitude :: "JSNumber \<Rightarrow> rat" where
  "magnitude a = (case a of Num r \<Rightarrow> \<bar>r\<bar> | _ \<Rightarrow> 0)"

text \<open>The product \<open>a * b\<close> of two numbers.\<close>

definition numMul :: "JSNumber \<Rightarrow> JSNumber \<Rightarrow> JSNumber" where
  "numMul a b =
     (if a = NaN \<or> b = NaN then NaN
      else if (isInfinite a \<and> isZero b) \<or> (isZero a \<and> isInfinite b) then NaN
      else
        (let negative = (isNegative a \<noteq> isNegative b) in
         if isInfinite a \<or> isInfinite b then (if negative then NegInfinity else PosInfinity)
         else
           (case roundToDouble (magnitude a * magnitude b) of
              None \<Rightarrow> (if negative then NegInfinity else PosInfinity)
            | Some m \<Rightarrow>
                (if m = 0 then (if negative then NegZero else Num 0)
                 else Num (if negative then - m else m)))))"

text \<open>The order of the numbers; NaN compares with nothing, minus zero comes before plus zero.\<close>

fun numLe :: "JSNumber \<Rightarrow> JSNumber \<Rightarrow> bool" where
  "numLe NaN b = False"
| "numLe a NaN = False"
| "numLe NegInfinity b = True"
| "numLe a PosInfinity = True"
| "numLe PosInfinity b = False"
| "numLe a NegInfinity = False"
| "numLe NegZero NegZero = True"
| "numLe NegZero (Num s) = (0 \<le> s)"
| "numLe (Num r) NegZero = (r < 0)"
| "numLe (Num r) (Num s) = (r \<le> s)"

text \<open>\<open>Math.min(a, b)\<close>.\<close>

definition numMin :: "JSNumber \<Rightarrow> JSNumber \<Rightarrow> JSNumber" where
  "numMin a b = (if a = NaN \<or> b = NaN then NaN else if numLe a b then a else b)"

section \<open>Refresh scheduler (services/refresh\_scheduler.ts)\<close>

record RefreshSchedulerOptions =
  opt_refreshIntervalMs :: JSNumber
  opt_maxBackoffMs :: "JSNumber option"
  opt_backoffMultiplier :: "JSNumber option"
  opt_maxRetries :: "int option"

text \<open>
  The scheduler object, with the builder it drives. \<open>timeoutId\<close> holds the delay of the
  pending timer, if one is set. The two counters are whole numbers.
\<close>

record RefreshScheduler =
  snapshotBuilder :: SnapshotBuilder
  refreshIntervalMs :: JSNumber
  maxBackoffMs :: JSNumber
  backoffMultiplier :: JSNumber
  maxRetries :: int
  currentSnapshot :: "Snapshot option"
  isRunning :: bool
  timeoutId :: "JSNumber option"
  consecutiveFailures :: int
  currentBackoffMs :: JSNumber

definition newRefreshScheduler :: "SnapshotBuilder \<Rightarrow> RefreshSchedulerOptions \<Rightarrow> RefreshScheduler" where
  "newRefreshScheduler builder options =
     \<lparr> snapshotBuilder = builder,
       refreshIntervalMs = opt_refreshIntervalMs options,
       maxBackoffMs = (case opt_maxBackoffMs options of None \<Rightarrow> Num 300000 | Some m \<Rightarrow> m),
       backoffMultiplier = (case opt_backoffMultiplier options of None \<Rightarrow> Num 2 | Some m \<Rightarrow> m),
       maxRetries = (case opt_maxRetries options of None \<Rightarrow> 10 | Some m \<Rightarrow> m),
       currentSnapshot = None,
       isRunning = False,
       timeoutId = None,
       consecutiveFailures = 0,
       currentBackoffMs = Num 0 \<rparr>"

record RefreshResult =
  success :: bool
  rr_snapshot :: "Snapshot option"
  rr_error :: "error option"

text \<open>The \<open>catch\<close> block of \<open>performRefresh\<close>.\<close>

definition refreshFailed :: "RefreshScheduler \<Rightarrow> error \<Rightarrow> RefreshResult \<times> RefreshScheduler" where
  "refreshFailed this e =
     (let n = consecutiveFailures this + 1;
          backoff = (if n = 1 then numMin (refreshIntervalMs this) (maxBackoffMs this)
                     else numMin (numMul (currentBackoffMs this) (backoffMultiplier this))
                            (maxBackoffMs this))
      in (\<lparr> success = False, rr_snapshot = None, rr_error = Some e \<rparr>,
          this\<lparr> consecutiveFailures := n, currentBackoffMs := backoff \<rparr>))"

text \<open>
  One refresh. \<open>notify\<close> says how the metrics collector and the update callback behave
  after the new snapshot has been stored: \<open>None\<close> when they return, \<open>Some e\<close> when one of
  them throws \<open>e\<close>, which lands in the same \<open>catch\<close> block.
\<close>

definition performRefresh ::
  "RefreshScheduler \<Rightarrow> BuildInput \<Rightarrow> error option \<Rightarrow> RefreshResult \<times> RefreshScheduler" where
  "performRefresh this inp notify =
     (case buildSnapshot (snapshotBuilder this) inp of
        (Inl e, builder1) \<Rightarrow> refreshFailed (this\<lparr> snapshotBuilder := builder1 \<rparr>) e
      | (Inr snapshot, builder1) \<Rightarrow>
          (let this1 = this\<lparr> snapshotBuilder := builder1, consecutiveFailures := 0,
                              currentBackoffMs := Num 0, currentSnapshot := Some snapshot \<rparr>
           in case notify of
                Some e \<Rightarrow> refreshFailed this1 e
              | None \<Rightarrow> (\<lparr> success = True, rr_snapshot = Some snapshot, rr_error = None \<rparr>, this1)))"

definition scheduleNext :: "RefreshScheduler \<Rightarrow> RefreshScheduler" where
  "scheduleNext this =
     (if \<not> isRunning this then this
      else if consecutiveFailures this \<ge> maxRetries this then this\<lparr> isRunning := False \<rparr>
      else this\<lparr> timeoutId := Some (if consecutiveFailures this > 0 then currentBackoffMs this
                                     else refreshIntervalMs this) \<rparr>)"

text \<open>
  What can happen to a scheduler: \<open>start()\<close>, \<open>stop()\<close>, the pending timer firing, and
  \<open>forceRefresh()\<close>. Those that build carry the build's input. An event is taken as a
  whole: its refresh has ended when the next event begins.
\<close>

datatype SchedulerEvent =
    Start BuildInput "error option"
  | Stop
  | TimerFires BuildInput "error option"
  | ForceRefresh BuildInput "error option"

fun schedulerStep :: "SchedulerEvent \<Rightarrow> RefreshScheduler \<Rightarrow> RefreshScheduler" where
  "schedulerStep (Start inp notify) this =
     (if isRunning this then this
      else scheduleNext (snd (performRefresh
             (this\<lparr> isRunning := True, consecutiveFailures := 0, currentBackoffMs := Num 0 \<rparr>) inp notify)))"
| "schedulerStep Stop this = this\<lparr> isRunning := False, timeoutId := None \<rparr>"
| "schedulerStep (TimerFires inp notify) this =
     (if isRunning this then scheduleNext (snd (performRefresh this inp notify)) else this)"
| "schedulerStep (ForceRefresh inp notify) this = snd (performRefresh this inp notify)"

text \<open>\<open>buildFails ev this\<close>: the event runs a build in state \<open>this\<close>, and the build throws.\<close>

fun buildOf :: "SchedulerEvent \<Rightarrow> RefreshScheduler \<Rightarrow> BuildInput option" where
  "buildOf (Start inp notify) this = (if isRunning this then None else Some inp)"
| "buildOf Stop this = None"
| "buildOf (TimerFires inp notify) this = (if isRunning this then Some inp else None)"
| "buildOf (ForceRefresh inp notify) this = Some inp"

definition buildFails :: "SchedulerEvent \<Rightarrow> RefreshScheduler \<Rightarrow> bool" where
  "buildFails ev this =
     (case buildOf ev this of
        None \<Rightarrow> False
      | Some inp \<Rightarrow> isl (fst (buildSnapshot (snapshotBuilder this) inp)))"

fun runScheduler :: "SchedulerEvent list \<Rightarrow> RefreshScheduler \<Rightarrow> RefreshScheduler" where
  "runScheduler [] this = this"
| "runScheduler (ev # evs) this = runScheduler evs (schedulerStep ev this)"

text \<open>Every build that the events run fails.\<close>

fun noBuildSucceeds :: "SchedulerEvent list \<Rightarrow> RefreshScheduler \<Rightarrow> bool" where
  "noBuildSucceeds [] this = True"
| "noBuildSucceeds (ev # evs) this =
     ((buildOf ev this = None \<or> buildFails ev this) \<and> noBuildSucceeds evs (schedulerStep ev this))"

section \<open>Search request decoding (protocol/ldap.ts)\<close>

record SubstringFilter =
  initial :: "string option"
  any :: "string list option"
  final :: "string option"

datatype Filter =
    AndFilter "Filter list"
  | OrFilter "Filter list"
  | NotFilter Filter
  | EqualityMatchFilter string string
  | SubstringsFilter string "SubstringFilter list"
  | PresentFilter string
  | GreaterOrEqualFilter string string
  | LessOrEqualFilter string string
  | ApproxMatchFilter string string

record SearchRequest =
  baseObject :: string
  scope :: int
  derefAliases :: int
  req_sizeLimit :: int
  timeLimit :: int
  typesOnly :: bool
  req_filter :: Filter
  attributes :: "string list"

text \<open>
  A decoded BER block, as the asn1js library hands it to the codec: its tag number, its
  children when it is an instance of \<open>Constructed\<close>, and the text that \<open>decodeString\<close>
  reads from it (the library and \<open>TextDecoder\<close> are outside the repository).
\<close>

datatype Block = Block (tagNumber: nat) (children: "Block list option") (valueText: string)

text \<open>\<open>decodeString(seq[i], msg)\<close>: a missing block throws \<open>msg\<close>.\<close>

definition decodeStringAt :: "Block list \<Rightarrow> nat \<Rightarrow> error \<Rightarrow> error + string" where
  "decodeStringAt seq i msg = (if i < length seq then Inr (valueText (seq ! i)) else Inl msg)"

text \<open>The loop over the children of a substrings filter.\<close>

fun substringParts :: "Block list \<Rightarrow> SubstringFilter list \<Rightarrow> SubstringFilter list" where
  "substringParts [] substrings = substrings"
| "substringParts (s # rest) substrings =
     (let t = tagNumber s; val = valueText s in
      if t = 0 then
        substringParts rest (substrings @ [\<lparr> initial = Some val, any = None, final = None \<rparr>])
      else if t = 1 then
        (if substrings \<noteq> [] \<and> any (last substrings) \<noteq> None then
           substringParts rest
             (butlast substrings @ [(last substrings)\<lparr> any := Some (the (any (last substrings)) @ [val]) \<rparr>])
         else substringParts rest (substrings @ [\<lparr> initial = None, any = Some [val], final = None \<rparr>]))
      else if t = 2 then
        substringParts rest (substrings @ [\<lparr> initial = None, any = None, final = Some val \<rparr>])
      else substringParts rest substrings)"

fun parseFilter :: "Block \<Rightarrow> error + Filter"
  and parseFilters :: "Block list \<Rightarrow> error + Filter list" where
  "parseFilter (Block tag con txt) =
     (if tag = 0 then
        (case con of
           None \<Rightarrow> Inl ''And filter must be constructed''
         | Some seq \<Rightarrow> (case parseFilters seq of Inl e \<Rightarrow> Inl e | Inr filters \<Rightarrow> Inr (AndFilter filters)))
      else if tag = 1 then
        (case con of
           None \<Rightarrow> Inl ''Or filter must be constructed''
         | Some seq \<Rightarrow> (case parseFilters seq of Inl e \<Rightarrow> Inl e | Inr filters \<Rightarrow> Inr (OrFilter filters)))
      else if tag = 2 then
        (case con of
           None \<Rightarrow> Inl ''Not filter must be constructed''
         | Some [] \<Rightarrow> Inl ''Invalid Not filter''
         | Some (b # bs) \<Rightarrow> (case parseFilter b of Inl e \<Rightarrow> Inl e | Inr f \<Rightarrow> Inr (NotFilter f)))
      else if tag = 3 then
        (case con of
           None \<Rightarrow> Inl ''Equality filter must be constructed''
         | Some seq \<Rightarrow>
             (case decodeStringAt seq 0 ''Equality attribute must be OctetString'' of
                Inl e \<Rightarrow> Inl e
              | Inr attributeDesc \<Rightarrow>
                  (case decodeStringAt seq 1 ''Equality value must be OctetString'' of
                     Inl e \<Rightarrow> Inl e
                   | Inr assertionValue \<Rightarrow> Inr (EqualityMatchFilter attributeDesc assertionValue))))
      else if tag = 4 then
        (case con of
           None \<Rightarrow> Inl ''Substrings filter must be constructed''
         | Some seq \<Rightarrow>
             (case decodeStringAt seq 0 ''Substrings type must be OctetString'' of
                Inl e \<Rightarrow> Inl e
              | Inr type' \<Rightarrow>
                  (if 1 < length seq then
                     (case children (seq ! 1) of
                        None \<Rightarrow> Inl ''Substrings list must be constructed''
                      | Some subsConstructed \<Rightarrow>
                          Inr (SubstringsFilter type' (substringParts subsConstructed [])))
                   else Inl ''Substrings list must be constructed'')))
      else if tag = 7 then Inr (PresentFilter txt)
      else if txt \<noteq> [] then Inr (PresentFilter txt)
      else Inl (''Unsupported or unrecognized filter tag '' @ numberToString (int tag)))"
| "parseFilters [] = Inr []"
| "parseFilters (b # bs) =
     (case parseFilter b of
        Inl e \<Rightarrow> Inl e
      | Inr f \<Rightarrow> (case parseFilters bs of Inl e \<Rightarrow> Inl e | Inr fs \<Rightarrow> Inr (f # fs)))"


section \<open>Strings\<close>

text \<open>White space of the regular-expression class \<open>s\<close> and \<open>trim()\<close>, among the code units below 256.\<close>

definition isSpace :: "char \<Rightarrow> bool" where
  "isSpace c = ((of_char c :: int) \<in> {9, 10, 11, 12, 13, 32, 160})"

definition trim :: "string \<Rightarrow> string" where
  "trim s = rev (dropWhile isSpace (rev (dropWhile isSpace s)))"

definition lowerChar :: "char \<Rightarrow> char" where
  "lowerChar c =
     (let n = (of_char c :: int) in
      if (65 \<le> n \<and> n \<le> 90) \<or> (192 \<le> n \<and> n \<le> 222 \<and> n \<noteq> 215) then char_of (n + 32) else c)"

definition toLowerCase :: "string \<Rightarrow> string" where
  "toLowerCase s = map lowerChar s"

text \<open>The regular-expression class \<open>w\<close>: letters, digits and the underscore.\<close>

definition isWordChar :: "char \<Rightarrow> bool" where
  "isWordChar c =
     (let n = (of_char c :: int) in
      (48 \<le> n \<and> n \<le> 57) \<or> (65 \<le> n \<and> n \<le> 90) \<or> n = 95 \<or> (97 \<le> n \<and> n \<le> 122))"

definition startsWith :: "string \<Rightarrow> string \<Rightarrow> bool" where
  "startsWith s p = (take (length p) s = p)"

definition endsWith :: "string \<Rightarrow> string \<Rightarrow> bool" where
  "endsWith s p = (length p \<le> length s \<and> drop (length s - length p) s = p)"

fun stringIncludes :: "string \<Rightarrow> string \<Rightarrow> bool" where
  "stringIncludes [] p = (p = [])"
| "stringIncludes (c # s) p = (startsWith (c # s) p \<or> stringIncludes s p)"

text \<open>\<open>xs.join(sep)\<close>.\<close>

fun join :: "string \<Rightarrow> string list \<Rightarrow> string" where
  "join sep [] = []"
| "join sep [x] = x"
| "join sep (x # y # ys) = x @ sep @ join sep (y # ys)"

text \<open>Splitting at white space and dropping the empty pieces: the maximal runs without white space.\<close>

fun splitWords :: "string \<Rightarrow> string \<Rightarrow> string list" where
  "splitWords [] cur = (if cur = [] then [] else [cur])"
| "splitWords (c # s) cur =
     (if isSpace c then (if cur = [] then splitWords s [] else cur # splitWords s [])
      else splitWords s (cur @ [c]))"

text \<open>The comparison of two strings by \<open><=\<close>: code unit by code unit, a prefix first.\<close>

fun stringLe :: "string \<Rightarrow> string \<Rightarrow> bool" where
  "stringLe [] t = True"
| "stringLe (c # s) [] = False"
| "stringLe (c # s) (d # t) =
     ((of_char c :: int) < of_char d \<or> ((of_char c :: int) = of_char d \<and> stringLe s t))"

section \<open>LDAP server: configuration and Bind (services/ldap\_server.ts)\<close>

record LDAPServerOptions =
  opt_port :: "int option"
  opt_bindDN :: "string option"
  opt_bindPassword :: "string option"
  opt_baseDN :: string
  opt_sizeLimit :: "int option"
  opt_allowAnonymousBind :: "bool option"

record LDAPServer =
  port :: int
  bindDN :: "string option"
  bindPassword :: "string option"
  baseDN :: string
  sizeLimit :: int
  allowAnonymousBind :: bool
  srv_currentSnapshot :: "Snapshot option"

definition LDAP_PORT :: int where
  "LDAP_PORT = 389"

text \<open>The constructor: \<open>??\<close> fills in the defaults.\<close>

definition newLDAPServer :: "LDAPServerOptions \<Rightarrow> LDAPServer" where
  "newLDAPServer options =
     \<lparr> port = (case opt_port options of None \<Rightarrow> LDAP_PORT | Some p \<Rightarrow> p),
       bindDN = opt_bindDN options,
       bindPassword = opt_bindPassword options,
       baseDN = opt_baseDN options,
       sizeLimit = (case opt_sizeLimit options of None \<Rightarrow> 1000 | Some n \<Rightarrow> n),
       allowAnonymousBind = (case opt_allowAnonymousBind options of None \<Rightarrow> False | Some b \<Rightarrow> b),
       srv_currentSnapshot = None \<rparr>"

definition handleBind :: "LDAPServer \<Rightarrow> BindRequest \<Rightarrow> BindResponse" where
  "handleBind this request =
     (if allowAnonymousBind this \<or> (\<not> truthy (bindDN this) \<and> \<not> truthy (bindPassword this)) then
        \<lparr> resultCode = Success, matchedDN = [],
          diagnosticMessage = ''Anonymous bind successful'' \<rparr>
      else
        (case authentication request of
           SimpleAuthentication pw \<Rightarrow>
             (let valid = (Some (name request) = bindDN this \<and> Some pw = bindPassword this)
              in \<lparr> resultCode = (if valid then Success else InvalidCredentials),
                   matchedDN = (if valid then name request else []),
                   diagnosticMessage = (if valid then ''Bind successful'' else ''Invalid credentials'') \<rparr>)
         | SaslAuthentication m c \<Rightarrow>
             \<lparr> resultCode = AuthMethodNotSupported, matchedDN = [],
               diagnosticMessage = ''Only simple authentication supported'' \<rparr>))"

section \<open>Search (services/ldap\_server.ts)\<close>

record PartialAttribute =
  attrType :: string
  vals :: "string list"

record SearchResultEntry =
  objectName :: string
  entryAttributes :: "PartialAttribute list"

text \<open>
  A SearchResultDone has the fields of a BindResponse; the message type tells them apart.
  \<open>msgControls\<close> lists the control types attached to a message.
\<close>

type_synonym SearchResultDone = BindResponse

datatype ProtocolOp =
    SearchResultEntryOp SearchResultEntry
  | SearchResultDoneOp SearchResultDone

record LDAPMessage =
  messageID :: int
  protocolOp :: ProtocolOp
  msgControls :: "string list option"

text \<open>An attribute object \<open>Record<string, string | string[]>\<close>, in insertion order.\<close>

datatype AttrValue = Str string | Arr "string list"

type_synonym Attrs = "(string \<times> AttrValue) list"

record SearchContext =
  ctx_request :: SearchRequest
  ctx_users :: "User list"
  ctx_groups :: "Group list"
  userDNBase :: string
  groupDNBase :: string
  ctx_baseDN :: string

text \<open>The helper \<open>normalizeString\<close> of \<open>normalizeSearchRequest\<close> and \<open>normalizeFilter\<close>.\<close>

definition normalizeString :: "string \<Rightarrow> string" where
  "normalizeString raw =
     (if raw = [] then []
      else if (of_char (hd raw) :: int) = 4 \<and> length raw > 2 then
        (let cleaned = trim (drop 2 raw) in if cleaned \<noteq> [] then cleaned else trim raw)
      else trim raw)"

definition normalizeSubstring :: "SubstringFilter \<Rightarrow> SubstringFilter" where
  "normalizeSubstring s =
     s\<lparr> initial := (if truthy (initial s) then Some (normalizeString (the (initial s))) else None),
        final := (if truthy (final s) then Some (normalizeString (the (final s))) else None),
        any := (case any s of None \<Rightarrow> None | Some parts \<Rightarrow> Some (map normalizeString parts)) \<rparr>"

fun normalizeFilter :: "Filter \<Rightarrow> Filter" where
  "normalizeFilter (AndFilter filters) = AndFilter (map normalizeFilter filters)"
| "normalizeFilter (OrFilter filters) = OrFilter (map normalizeFilter filters)"
| "normalizeFilter (NotFilter f) = NotFilter (normalizeFilter f)"
| "normalizeFilter (EqualityMatchFilter attributeDesc assertionValue) =
     EqualityMatchFilter (normalizeString attributeDesc) (normalizeString assertionValue)"
| "normalizeFilter (SubstringsFilter type' substrings) =
     SubstringsFilter (normalizeString type') (map normalizeSubstring substrings)"
| "normalizeFilter (PresentFilter attributeDesc) = PresentFilter (normalizeString attributeDesc)"
| "normalizeFilter (GreaterOrEqualFilter attributeDesc assertionValue) =
     GreaterOrEqualFilter (normalizeString attributeDesc) (normalizeString assertionValue)"
| "normalizeFilter (LessOrEqualFilter attributeDesc assertionValue) =
     LessOrEqualFilter (normalizeString attributeDesc) (normalizeString assertionValue)"
| "normalizeFilter (ApproxMatchFilter attributeDesc assertionValue) =
     ApproxMatchFilter (normalizeString attributeDesc) (normalizeString assertionValue)"

definition normalizeSearchRequest :: "SearchRequest \<Rightarrow> SearchRequest" where
  "normalizeSearchRequest request =
     request\<lparr> baseObject := normalizeString (baseObject request),
              attributes := filter (\<lambda>a. a \<noteq> []) (map normalizeString (attributes request)),
              req_filter := normalizeFilter (req_filter request) \<rparr>"

definition createSearchContext :: "LDAPServer \<Rightarrow> Snapshot option \<Rightarrow> SearchRequest \<Rightarrow> SearchContext" where
  "createSearchContext this snapshot request =
     \<lparr> ctx_request = request,
       ctx_users = (case snapshot of None \<Rightarrow> [] | Some s \<Rightarrow> users s),
       ctx_groups = (case snapshot of None \<Rightarrow> [] | Some s \<Rightarrow> groups s),
       userDNBase = ''ou=users,'' @ baseDN this,
       groupDNBase = ''ou=groups,'' @ baseDN this,
       ctx_baseDN = baseDN this \<rparr>"

text \<open>\<open>dn.toLowerCase().replace(/\<dots>/g, "")\<close> with the white-space class: lower case, no white space.\<close>

definition normalizeDN :: "string \<Rightarrow> string" where
  "normalizeDN dn = filter (\<lambda>c. \<not> isSpace c) (toLowerCase dn)"

definition isBaseObjectInScope :: "LDAPServer \<Rightarrow> string \<Rightarrow> bool" where
  "isBaseObjectInScope this base =
     (if base = [] then True
      else normalizeDN base = normalizeDN (baseDN this)
           \<or> endsWith (normalizeDN base) ('','' @ normalizeDN (baseDN this)))"

text \<open>\<open>entryParts.slice(1).join(",")\<close>: what follows the first comma.\<close>

definition parentOf :: "string \<Rightarrow> string" where
  "parentOf dn = drop 1 (dropWhile (\<lambda>c. c \<noteq> CHR '','') dn)"

definition isInSearchScope :: "string \<Rightarrow> string \<Rightarrow> int \<Rightarrow> bool" where
  "isInSearchScope entryDN base sc =
     (let normalizedEntry = normalizeDN entryDN; normalizedBase = normalizeDN base in
      if sc = 0 then normalizedEntry = normalizedBase
      else if sc = 1 then
        (if normalizedEntry = normalizedBase then False else parentOf normalizedEntry = normalizedBase)
      else if sc = 2 then
        normalizedEntry = normalizedBase \<or> endsWith normalizedEntry ('','' @ normalizedBase)
      else False)"

definition normalizeStringValue :: "string \<Rightarrow> string" where
  "normalizeStringValue raw =
     (if raw = [] then []
      else
        (let firstByte = (of_char (hd raw) :: int);
             cleaned0 =
               (if firstByte = 4 \<or> firstByte = 12 then (if length raw > 2 then drop 2 raw else raw)
                else if firstByte \<le> 31 \<and> length raw > 2 then
                  (let lengthByte = (of_char (raw ! 1) :: int) in
                   if lengthByte > 0 \<and> lengthByte \<le> int (length raw) - 2 then drop 2 raw else raw)
                else raw);
             cleaned1 = filter (\<lambda>c. 32 \<le> (of_char c :: int) \<and> (of_char c :: int) \<le> 126) cleaned0;
             cleaned2 =
               (if cleaned1 = [] \<or> list_ex (\<lambda>c. (of_char c :: int) < 32) cleaned1
                then filter isWordChar raw else cleaned1)
         in if trim cleaned2 \<noteq> [] then trim cleaned2 else trim raw))"

definition valueList :: "AttrValue \<Rightarrow> string list" where
  "valueList v = (case v of Str s \<Rightarrow> [s] | Arr xs \<Rightarrow> xs)"

text \<open>The inner function \<open>getAttrValues\<close> of \<open>matchesFilter\<close>.\<close>

definition getAttrValues :: "Attrs \<Rightarrow> string \<Rightarrow> string list" where
  "getAttrValues attrs nm =
     (case find (\<lambda>(key, v). toLowerCase key = toLowerCase (normalizeStringValue nm)) attrs of
        None \<Rightarrow> []
      | Some (key, v) \<Rightarrow> valueList v)"

definition matchesSubstring :: "string \<Rightarrow> SubstringFilter \<Rightarrow> bool" where
  "matchesSubstring combinedValue substring =
     (\<not> (truthy (initial substring) \<and> \<not> startsWith combinedValue (toLowerCase (the (initial substring))))
      \<and> \<not> (truthy (final substring) \<and> \<not> endsWith combinedValue (toLowerCase (the (final substring))))
      \<and> (case any substring of
            None \<Rightarrow> True
          | Some parts \<Rightarrow> list_all (\<lambda>anyPart. stringIncludes combinedValue (toLowerCase anyPart)) parts))"

fun matchesFilter :: "Filter \<Rightarrow> Attrs \<Rightarrow> bool" where
  "matchesFilter (AndFilter filters) attrs = list_all (\<lambda>f. matchesFilter f attrs) filters"
| "matchesFilter (OrFilter filters) attrs = list_ex (\<lambda>f. matchesFilter f attrs) filters"
| "matchesFilter (NotFilter f) attrs = (\<not> matchesFilter f attrs)"
| "matchesFilter (EqualityMatchFilter attributeDesc assertionValue) attrs =
     (let normalizedAttr = normalizeStringValue attributeDesc;
          normalizedValue = normalizeStringValue assertionValue;
          values = getAttrValues attrs normalizedAttr
      in list_ex (\<lambda>v. toLowerCase (normalizeStringValue v) = toLowerCase normalizedValue) values)"
| "matchesFilter (PresentFilter attributeDesc) attrs =
     (let values = getAttrValues attrs (normalizeStringValue attributeDesc)
      in length values > 0 \<and> list_ex (\<lambda>v. v \<noteq> []) values)"
| "matchesFilter (SubstringsFilter type' substrings) attrs =
     (let values = getAttrValues attrs type';
          combinedValue = toLowerCase (join '' '' values)
      in list_all (matchesSubstring combinedValue) substrings)"
| "matchesFilter (GreaterOrEqualFilter attributeDesc assertionValue) attrs =
     list_ex (\<lambda>v. stringLe assertionValue v) (getAttrValues attrs attributeDesc)"
| "matchesFilter (LessOrEqualFilter attributeDesc assertionValue) attrs =
     list_ex (\<lambda>v. stringLe v assertionValue) (getAttrValues attrs attributeDesc)"
| "matchesFilter (ApproxMatchFilter attributeDesc assertionValue) attrs =
     list_ex (\<lambda>v. toLowerCase v = toLowerCase assertionValue) (getAttrValues attrs attributeDesc)"

definition findGroupById :: "Group list \<Rightarrow> string \<Rightarrow> Group option" where
  "findGroupById gs i = find (\<lambda>g. g_id g = i) gs"

definition buildUserAttributes :: "User \<Rightarrow> SearchContext \<Rightarrow> Attrs" where
  "buildUserAttributes user context =
     (let primaryGroup = findGroupById (ctx_groups context) (primaryGroupId user);
          gidNumber = (case primaryGroup of None \<Rightarrow> ''10000'' | Some g \<Rightarrow> numberToString (posixGid g));
          shown = (if displayName user \<noteq> [] then displayName user else username user);
          parts = splitWords (trim shown) [];
          givenName = (if length parts > 0 \<and> hd parts \<noteq> [] then hd parts
                       else if username user \<noteq> [] then username user else ''unknown'');
          sn = (if length parts > 1 then join '' '' (drop 1 parts) else givenName);
          dn = ''uid='' @ username user @ '','' @ userDNBase context;
          memberOfDNs =
            map (\<lambda>g. ''cn='' @ g_name g @ '','' @ groupDNBase context)
              (List.map_filter (findGroupById (ctx_groups context)) (memberGroupIds user))
      in [(''dn'', Str dn),
          (''objectClass'', Arr [''top'', ''person'', ''organizationalPerson'', ''inetOrgPerson'', ''posixAccount'']),
          (''uid'', Str (username user)),
          (''cn'', Str shown),
          (''sn'', Str sn),
          (''givenName'', Str givenName),
          (''displayName'', Str shown),
          (''mail'', Str (orElse (email user) [])),
          (''userPrincipalName'', Str (orElse (email user) [])),
          (''uidNumber'', Str (numberToString (posixUid user))),
          (''gidNumber'', Str gidNumber),
          (''homeDirectory'', Str (''/home/'' @ username user)),
          (''loginShell'', Str ''/bin/bash''),
          (''memberOf'', Arr memberOfDNs),
          (''userAccountControl'', Str ''512''),
          (''description'', Str (''User account for '' @ shown))])"

definition groupMembers :: "Group \<Rightarrow> SearchContext \<Rightarrow> User list" where
  "groupMembers grp context =
     filter (\<lambda>u. g_id grp \<in> set (memberGroupIds u) \<or> primaryGroupId u = g_id grp) (ctx_users context)"

definition buildGroupAttributes :: "Group \<Rightarrow> SearchContext \<Rightarrow> Attrs" where
  "buildGroupAttributes grp context =
     [(''dn'', Str (''cn='' @ g_name grp @ '','' @ groupDNBase context)),
      (''objectClass'', Arr [''top'', ''group'', ''posixGroup'']),
      (''cn'', Str (g_name grp)),
      (''gidNumber'', Str (numberToString (posixGid grp))),
      (''description'', Str (orElse (g_description grp) (''Group '' @ g_name grp))),
      (''member'', Arr (map (\<lambda>u. ''uid='' @ username u @ '',ou=users,'' @ ctx_baseDN context)
                          (groupMembers grp context))),
      (''memberUid'', Arr (map username (groupMembers grp context)))]"

definition createRootDSEEntry :: "SearchContext \<Rightarrow> SearchResultEntry" where
  "createRootDSEEntry context =
     \<lparr> objectName = [],
       entryAttributes =
         map (\<lambda>(t, v). \<lparr> attrType = t, vals = valueList v \<rparr>)
           [(''objectClass'', Arr [''top'', ''rootDSE'']),
            (''namingContexts'', Arr [ctx_baseDN context]),
            (''supportedLDAPVersion'', Arr [''3'']),
            (''supportedControl'', Arr [''1.2.840.113556.1.4.319'']),
            (''supportedExtension'', Arr []),
            (''vendorName'', Str ''LDAPtoID''),
            (''vendorVersion'', Str ''1.0.0'')] \<rparr>"

definition buildAttributesMapFromEntry :: "SearchResultEntry \<Rightarrow> Attrs" where
  "buildAttributesMapFromEntry entry =
     fold (\<lambda>attr attrs. AList.update (attrType attr) (Arr (vals attr)) attrs) (entryAttributes entry) []"

definition buildAttributeList :: "Attrs \<Rightarrow> string list \<Rightarrow> bool \<Rightarrow> PartialAttribute list" where
  "buildAttributeList attrs requestedAttrs typesOnly' =
     List.map_filter
       (\<lambda>(attrName, attrValue).
          if attrName = ''dn'' then None
          else if length requestedAttrs > 0 \<and> toLowerCase attrName \<notin> set (map toLowerCase requestedAttrs)
            then None
          else
            (let stringValues = filter (\<lambda>v. v \<noteq> []) (valueList attrValue) in
             if length stringValues > 0
             then Some \<lparr> attrType = attrName, vals = (if typesOnly' then [] else stringValues) \<rparr>
             else None))
       attrs"

definition dnOf :: "Attrs \<Rightarrow> string" where
  "dnOf attrs = (case map_of attrs ''dn'' of Some (Str dn) \<Rightarrow> dn | _ \<Rightarrow> [])"

definition createEntry :: "Attrs \<Rightarrow> string list \<Rightarrow> bool \<Rightarrow> SearchResultEntry" where
  "createEntry attrs requestedAttrs typesOnly' =
     \<lparr> objectName = dnOf attrs, entryAttributes = buildAttributeList attrs requestedAttrs typesOnly' \<rparr>"

definition ouAttrs :: "string \<Rightarrow> string \<Rightarrow> string \<Rightarrow> Attrs" where
  "ouAttrs ou descr base =
     [(''dn'', Str (''ou='' @ ou @ '','' @ base)),
      (''objectClass'', Arr [''top'', ''organizationalUnit'']),
      (''ou'', Str ou),
      (''description'', Str descr)]"

definition createOUEntries :: "SearchContext \<Rightarrow> SearchRequest \<Rightarrow> SearchResultEntry list" where
  "createOUEntries context request =
     concat (map (\<lambda>ou.
        if isInSearchScope (dnOf ou) (baseObject request) (scope request)
           \<and> matchesFilter (req_filter request) ou
        then [createEntry ou (attributes request) (typesOnly request)] else [])
       [ouAttrs ''users'' ''Users organizational unit'' (ctx_baseDN context),
        ouAttrs ''groups'' ''Groups organizational unit'' (ctx_baseDN context)])"

text \<open>The two loops of \<open>executeSearch\<close>: the entries in scope that match, in array order.\<close>

definition searchUsers :: "SearchContext \<Rightarrow> SearchResultEntry list" where
  "searchUsers context =
     (let request = ctx_request context in
      map (\<lambda>userAttrs. createEntry userAttrs (attributes request) (typesOnly request))
        (filter (\<lambda>userAttrs. isInSearchScope (dnOf userAttrs) (baseObject request) (scope request)
                              \<and> matchesFilter (req_filter request) userAttrs)
           (map (\<lambda>user. buildUserAttributes user context) (ctx_users context))))"

definition searchGroups :: "SearchContext \<Rightarrow> SearchResultEntry list" where
  "searchGroups context =
     (let request = ctx_request context in
      map (\<lambda>groupAttrs. createEntry groupAttrs (attributes request) (typesOnly request))
        (filter (\<lambda>groupAttrs. isInSearchScope (dnOf groupAttrs) (baseObject request) (scope request)
                               \<and> matchesFilter (req_filter request) groupAttrs)
           (map (\<lambda>grp. buildGroupAttributes grp context) (ctx_groups context))))"

definition executeSearch :: "SearchContext \<Rightarrow> SearchResultEntry list" where
  "executeSearch context =
     (let request = ctx_request context in
      if baseObject request = [] \<and> scope request = 0 then
        (let rootEntry = createRootDSEEntry context in
         if matchesFilter (req_filter request) (buildAttributesMapFromEntry rootEntry)
         then [rootEntry] else [])
      else
        searchUsers context @ searchGroups context
        @ (if scope request \<noteq> 0 then createOUEntries context request else []))"

definition applyLimits :: "LDAPServer \<Rightarrow> SearchResultEntry list \<Rightarrow> int \<Rightarrow> SearchResultEntry list" where
  "applyLimits this entries clientSizeLimit =
     (let effectiveLimit = min (sizeLimit this)
                              (if clientSizeLimit > 0 then clientSizeLimit else sizeLimit this)
      in slice0 entries effectiveLimit)"

text \<open>
  \<open>sendSearchDone\<close>: the Done message, with the paged-results control echoed when the
  request carried it.
\<close>

definition pagedResultsOID :: string where
  "pagedResultsOID = ''1.2.840.113556.1.4.319''"

definition searchDone ::
  "int \<Rightarrow> string list option \<Rightarrow> LDAPResultCode \<Rightarrow> string \<Rightarrow> LDAPMessage" where
  "searchDone mid controls code msg =
     \<lparr> messageID = mid,
       protocolOp = SearchResultDoneOp \<lparr> resultCode = code, matchedDN = [], diagnosticMessage = msg \<rparr>,
       msgControls = (case controls of
                        None \<Rightarrow> None
                      | Some cs \<Rightarrow> (if pagedResultsOID \<in> set cs then Some [pagedResultsOID] else None)) \<rparr>"

text \<open>
  \<open>handleSearch\<close>: the messages written to the connection, in order. The body of its
  \<open>try\<close> throws nothing in this model, so the \<open>catch\<close> block (operationsError) has no
  branch here.
\<close>

definition handleSearch ::
  "LDAPServer \<Rightarrow> int \<Rightarrow> SearchRequest \<Rightarrow> string list option \<Rightarrow> LDAPMessage list" where
  "handleSearch this mid request controls =
     (case srv_currentSnapshot this of
        None \<Rightarrow> [searchDone mid None Unavailable ''No directory snapshot available'']
      | Some snapshot \<Rightarrow>
          (let normalizedRequest = normalizeSearchRequest request;
               searchContext = createSearchContext this (Some snapshot) normalizedRequest
           in if \<not> isBaseObjectInScope this (baseObject normalizedRequest) then
                [searchDone mid (Some []) Success ''Search completed'']
              else
                (let entries = executeSearch searchContext;
                     limitedEntries = applyLimits this entries (req_sizeLimit normalizedRequest);
                     exceeded = (int (length entries) \<ge> sizeLimit this)
                 in map (\<lambda>entry. \<lparr> messageID = mid, protocolOp = SearchResultEntryOp entry,
                                     msgControls = None \<rparr>) limitedEntries
                    @ [searchDone mid controls
                         (if exceeded then SizeLimitExceeded else Success)
                         (if exceeded then ''Size limit exceeded'' else ''Search completed'')])))"

section \<open>Notions used in the statements\<close>

subsection \<open>Hashing\<close>




subsection \<open>Allocation\<close>

text \<open>The id that attempt number \<open>attempt\<close> computes for a key.\<close>

definition candidateId :: "IdAllocator \<Rightarrow> string \<Rightarrow> int \<Rightarrow> int" where
  "candidateId this key attempt = hashToInt (salt this @ '':'' @ numberToString attempt @ '':'' @ key)"

text \<open>
  The tests of the loop of \<open>allocate\<close>, as the code makes them: an id is rejected by the
  floor or the ceiling; an id is held by another key when the reverse map has a truthy
  entry for it that is not the key.
\<close>

definition rejected :: "IdAllocator \<Rightarrow> int \<Rightarrow> bool" where
  "rejected this i = (i \<le> floor' this \<or> aboveCeiling this i)"

definition heldByOther :: "IdAllocator \<Rightarrow> string \<Rightarrow> int \<Rightarrow> bool" where
  "heldByOther this key i =
     (truthy (map_of (byId (state this)) i) \<and> map_of (byId (state this)) i \<noteq> Some key)"

definition accepted :: "IdAllocator \<Rightarrow> string \<Rightarrow> int \<Rightarrow> bool" where
  "accepted this key attempt =
     (\<not> rejected this (candidateId this key attempt) \<and> \<not> heldByOther this key (candidateId this key attempt))"

definition addCollisions :: "int \<Rightarrow> IdAllocator \<Rightarrow> IdAllocator" where
  "addCollisions n this = this\<lparr> state := (state this)\<lparr> collisions := collisions (state this) + n \<rparr> \<rparr>"

definition collisionsIn :: "IdAllocator \<Rightarrow> string \<Rightarrow> int list \<Rightarrow> int" where
  "collisionsIn this key attempts =
     int (length (filter (\<lambda>b. \<not> rejected this (candidateId this key b)) attempts))"

text \<open>The loop of \<open>allocate\<close> in closed form: the first accepted attempt from \<open>start\<close> on.\<close>

definition hashPath :: "IdAllocator \<Rightarrow> string \<Rightarrow> int \<Rightarrow> AllocationResult option \<times> IdAllocator" where
  "hashPath this key start =
     (case find (accepted this key) [start..retryLimit this] of
        None \<Rightarrow> (None, addCollisions (collisionsIn this key [start..retryLimit this]) this)
      | Some a \<Rightarrow>
          (Some \<lparr> alloc_id = candidateId this key a, hashed = True, collisionCount = a \<rparr>,
           (if truthy (map_of (byId (state this)) (candidateId this key a))
            then addCollisions (collisionsIn this key [start..a - 1]) this
            else commit key (candidateId this key a)
                   (addCollisions (collisionsIn this key [start..a - 1]) this))))"



text \<open>
  The state of an allocator that has handed out ids above its floor only: the sequential
  counter is above the floor, every id in the key map is above the floor, and the reverse
  map gives the key back (the empty key apart, which the reverse map does not protect).
\<close>

definition allocatorConsistent :: "IdAllocator \<Rightarrow> bool" where
  "allocatorConsistent this \<longleftrightarrow>
     floor' this < nextSeq (state this)
     \<and> (\<forall>(k, i) \<in> set (byKey (state this)).
           map_of (byKey (state this)) k = Some i
           \<longrightarrow> floor' this < i \<and> (k \<noteq> [] \<longrightarrow> map_of (byId (state this)) i = Some k))"

text \<open>What one call of \<open>allocate\<close> may do to the configuration and the reverse map.\<close>

definition extends :: "IdAllocator \<Rightarrow> IdAllocator \<Rightarrow> bool" where
  "extends this this' \<longleftrightarrow>
     salt this' = salt this \<and> retryLimit this' = retryLimit this \<and> floor' this' = floor' this
     \<and> ceiling' this' = ceiling' this
     \<and> (\<forall>i k. k \<noteq> [] \<and> map_of (byId (state this)) i = Some k
           \<longrightarrow> map_of (byId (state this')) i = Some k)"

subsection \<open>Snapshots\<close>

text \<open>The member list and the flag that \<open>processGroups\<close> gives a raw group.\<close>

definition finalMembers :: "SnapshotBuilder \<Rightarrow> RawGroup \<Rightarrow> string list" where
  "finalMembers this grp =
     (let ms = (case rg_members grp of None \<Rightarrow> [] | Some ms \<Rightarrow> ms)
      in if int (length ms) > maxGroupMembers this then slice0 ms (maxGroupMembers this) else ms)"

definition isTruncated :: "SnapshotBuilder \<Rightarrow> RawGroup \<Rightarrow> bool" where
  "isTruncated this grp =
     (int (length (case rg_members grp of None \<Rightarrow> [] | Some ms \<Rightarrow> ms)) > maxGroupMembers this)"

text \<open>
  The content of a build result: the users without their two time stamps, the groups and
  the feature flags; a failed build has its error.
\<close>

definition stripTimes :: "User \<Rightarrow> User" where
  "stripTimes u = u\<lparr> createdAt := None, updatedAt := None \<rparr>"

definition snapshotContent :: "error + Snapshot \<Rightarrow> error + User list \<times> Group list \<times> string list" where
  "snapshotContent r =
     (case r of Inl e \<Rightarrow> Inl e
      | Inr s \<Rightarrow> Inr (map stripTimes (users s), groups s, featureFlags s))"

definition usersModuloTimes :: "error + User list \<Rightarrow> error + User list" where
  "usersModuloTimes r = (case r of Inl e \<Rightarrow> Inl e | Inr us \<Rightarrow> Inr (map stripTimes us))"

definition groupsModuloTimes :: "error + Group list \<times> User list \<Rightarrow> error + Group list \<times> User list" where
  "groupsModuloTimes r = (case r of Inl e \<Rightarrow> Inl e | Inr (gs, us) \<Rightarrow> Inr (gs, map stripTimes us))"

subsection \<open>Search\<close>

text \<open>\<open>updateSnapshot\<close>: the server is handed a new snapshot.\<close>

definition updateSnapshot :: "LDAPServer \<Rightarrow> Snapshot \<Rightarrow> LDAPServer" where
  "updateSnapshot this snapshot = this\<lparr> srv_currentSnapshot := Some snapshot \<rparr>"


definition userDN :: "SearchContext \<Rightarrow> User \<Rightarrow> string" where
  "userDN context u = ''uid='' @ username u @ '','' @ userDNBase context"

definition groupDN :: "SearchContext \<Rightarrow> Group \<Rightarrow> string" where
  "groupDN context g = ''cn='' @ g_name g @ '','' @ groupDNBase context"

text \<open>The result code of a SearchResultDone message.\<close>

definition doneCode :: "LDAPMessage \<Rightarrow> LDAPResultCode option" where
  "doneCode m = (case protocolOp m of SearchResultDoneOp d \<Rightarrow> Some (resultCode d) | _ \<Rightarrow> None)"

section \<open>Example data\<close>

text \<open>
  Two allocators as the main program creates them, a builder over them, and what an
  identity provider returns: three users (one disabled) and two groups, neither list
  in alphabetical order.
\<close>

definition exampleUidAllocator :: IdAllocator where
  "exampleUidAllocator =
     newIdAllocator \<lparr> opt_salt = ''uid_https://idp.example.com'', opt_retryLimit = None,
                      opt_floor = Some 10000, opt_ceiling = None, opt_sequentialStart = None \<rparr>"

definition exampleGidAllocator :: IdAllocator where
  "exampleGidAllocator =
     newIdAllocator \<lparr> opt_salt = ''gid_https://idp.example.com'', opt_retryLimit = None,
                      opt_floor = Some 10000, opt_ceiling = None, opt_sequentialStart = None \<rparr>"

definition exampleBuilder :: SnapshotBuilder where
  "exampleBuilder =
     newSnapshotBuilder \<lparr> opt_uidAllocator = exampleUidAllocator, opt_gidAllocator = exampleGidAllocator,
                          opt_enabledFeatures = [], opt_maxGroupMembers = None \<rparr>"

definition exampleInput :: BuildInput where
  "exampleInput =
     \<lparr> fetchUsers = Inr [\<lparr> ru_id = ''u2'', ru_username = ''bob'', ru_email = None,
                            ru_enabled = True, ru_displayName = None \<rparr>,
                          \<lparr> ru_id = ''u1'', ru_username = ''alice'', ru_email = Some ''alice@example.com'',
                            ru_enabled = True, ru_displayName = Some ''Alice Smith'' \<rparr>,
                          \<lparr> ru_id = ''u3'', ru_username = ''carol'', ru_email = None,
                            ru_enabled = False, ru_displayName = None \<rparr>],
       fetchGroups = Inr [\<lparr> rg_id = ''g1'', rg_name = ''staff'', rg_description = None,
                             rg_members = Some [''u1'', ''u2'', ''u3''] \<rparr>,
                           \<lparr> rg_id = ''g2'', rg_name = ''admins'', rg_description = None,
                             rg_members = Some [''u1''] \<rparr>],
       groupsSettleFirst = False,
       clock = (\<lambda>k. ''2025-09-16T00:00:00.000Z'') \<rparr>"

text \<open>The snapshot that the first build of the example gives.\<close>

definition exampleSnapshot :: Snapshot where
  "exampleSnapshot =
     \<lparr> users =
         [\<lparr> u_id = ''u2'', username = ''bob'', displayName = ''bob'', email = None, active = True,
            posixUid = 1932547647, primaryGroupId = ''users'', memberGroupIds = [''g1''],
            createdAt = Some ''2025-09-16T00:00:00.000Z'',
            updatedAt = Some ''2025-09-16T00:00:00.000Z'' \<rparr>,
          \<lparr> u_id = ''u1'', username = ''alice'', displayName = ''Alice Smith'',
            email = Some ''alice@example.com'', active = True,
            posixUid = 1932548082, primaryGroupId = ''users'', memberGroupIds = [''g1'', ''g2''],
            createdAt = Some ''2025-09-16T00:00:00.000Z'',
            updatedAt = Some ''2025-09-16T00:00:00.000Z'' \<rparr>],
       groups =
         [\<lparr> g_id = ''g1'', g_name = ''staff'', g_description = None,
            memberUserIds = [''u1'', ''u2'', ''u3''], g_memberGroupIds = [],
            posixGid = 1142765612, isSynthetic = False, truncated = Some False \<rparr>,
          \<lparr> g_id = ''g2'', g_name = ''admins'', g_description = None,
            memberUserIds = [''u1''], g_memberGroupIds = [],
            posixGid = 1142766917, isSynthetic = False, truncated = Some False \<rparr>],
       generatedAt = ''2025-09-16T00:00:00.000Z'',
       sequence = 1,
       featureFlags = [] \<rparr>"

text \<open>Inputs with a repeated user id, with nothing, and with a failing user fetch.\<close>

definition duplicateIdInput :: BuildInput where
  "duplicateIdInput =
     \<lparr> fetchUsers = Inr [\<lparr> ru_id = ''u1'', ru_username = ''alice'', ru_email = None,
                            ru_enabled = True, ru_displayName = None \<rparr>,
                          \<lparr> ru_id = ''u1'', ru_username = ''alice2'', ru_email = None,
                            ru_enabled = True, ru_displayName = None \<rparr>],
       fetchGroups = Inr [],
       groupsSettleFirst = False,
       clock = (\<lambda>k. ''2025-09-16T00:00:00.000Z'') \<rparr>"

definition emptyInput :: BuildInput where
  "emptyInput = \<lparr> fetchUsers = Inr [], fetchGroups = Inr [], groupsSettleFirst = False,
                  clock = (\<lambda>k. ''2025-09-16T00:00:00.000Z'') \<rparr>"

definition failingInput :: BuildInput where
  "failingInput = \<lparr> fetchUsers = Inl ''HTTP 503'', fetchGroups = Inr [], groupsSettleFirst = False,
                    clock = (\<lambda>k. ''2025-09-16T00:05:00.000Z'') \<rparr>"



definition lowStartAllocator :: IdAllocator where
  "lowStartAllocator =
     newIdAllocator \<lparr> opt_salt = ''uid_https://idp.example.com'', opt_retryLimit = None,
                      opt_floor = Some 10000, opt_ceiling = Some 20000, opt_sequentialStart = Some 1 \<rparr>"


text \<open>A server that holds the example snapshot, and a subtree search for every entry.\<close>

definition exampleServer :: LDAPServer where
  "exampleServer =
     updateSnapshot
       (newLDAPServer \<lparr> opt_port = None, opt_bindDN = None, opt_bindPassword = None,
                        opt_baseDN = ''dc=example,dc=com'', opt_sizeLimit = None,
                        opt_allowAnonymousBind = None \<rparr>)
       exampleSnapshot"

definition exampleRequest :: SearchRequest where
  "exampleRequest =
     \<lparr> baseObject = ''dc=example,dc=com'', scope = 2, derefAliases = 0, req_sizeLimit = 0,
       timeLimit = 0, typesOnly = False, req_filter = PresentFilter ''objectClass'',
       attributes = [''cn''] \<rparr>"



text \<open>
  A scheduler that has started with a successful build and stops after two consecutive
  failures, and four events whose builds fail.
\<close>

definition exampleScheduler :: RefreshScheduler where
  "exampleScheduler =
     schedulerStep (Start exampleInput None)
       (newRefreshScheduler exampleBuilder
          \<lparr> opt_refreshIntervalMs = Num 300000, opt_maxBackoffMs = None, opt_backoffMultiplier = None,
            opt_maxRetries = Some 2 \<rparr>)"

definition failingEvents :: "SchedulerEvent list" where
  "failingEvents =
     [TimerFires failingInput None, TimerFires failingInput None, TimerFires failingInput None,
      ForceRefresh failingInput None]"

section \<open>The allocator: hashing and the attempt loop\<close>






lemma addCollisions_simps [simp]:
  "salt (addCollisions n this) = salt this"
  "retryLimit (addCollisions n this) = retryLimit this"
  "floor' (addCollisions n this) = floor' this"
  "ceiling' (addCollisions n this) = ceiling' this"
  "byKey (state (addCollisions n this)) = byKey (state this)"
  "byId (state (addCollisions n this)) = byId (state this)"
  "nextSeq (state (addCollisions n this)) = nextSeq (state this)"
  "fallbacks (state (addCollisions n this)) = fallbacks (state this)"
  "collisions (state (addCollisions n this)) = collisions (state this) + n"
  by (simp_all add: addCollisions_def)

lemma addCollisions_0 [simp]: "addCollisions 0 this = this"
  by (simp add: addCollisions_def)

lemma addCollisions_add [simp]: "addCollisions n (addCollisions m this) = addCollisions (m + n) this"
  by (simp add: addCollisions_def add.assoc)

lemma pred_addCollisions [simp]:
  "candidateId (addCollisions n this) key a = candidateId this key a"
  "rejected (addCollisions n this) i = rejected this i"
  "heldByOther (addCollisions n this) key i = heldByOther this key i"
  "accepted (addCollisions n this) key a = accepted this key a"
  "aboveCeiling (addCollisions n this) i = aboveCeiling this i"
  "collisionsIn (addCollisions n this) key bs = collisionsIn this key bs"
  by (simp_all add: candidateId_def rejected_def heldByOther_def accepted_def aboveCeiling_def
        collisionsIn_def)

lemma accepted_addCollisions_fun [simp]: "accepted (addCollisions n this) key = accepted this key"
  by (rule ext) simp

lemma commit_addCollisions: "commit key i (addCollisions n this) = addCollisions n (commit key i this)"
  by (simp add: commit_def addCollisions_def)

lemma hashPath_addCollisions:
  "hashPath (addCollisions n this) key a =
     (fst (hashPath this key a), addCollisions n (snd (hashPath this key a)))"
  by (simp add: hashPath_def commit_addCollisions add.commute split: option.splits)

lemma find_mem: "find P xs = Some x \<Longrightarrow> x \<in> set xs"
  by (induction xs) (auto split: if_splits)

lemma find_upto_ge: "find P [a..b] = Some x \<Longrightarrow> a \<le> x \<and> x \<le> b"
  by (auto dest: find_mem)

lemma hashPath_step:
  assumes le: "attempt \<le> retryLimit this"
  shows "hashPath this key attempt =
     (if accepted this key attempt then
        (Some \<lparr> alloc_id = candidateId this key attempt, hashed = True, collisionCount = attempt \<rparr>,
         if truthy (map_of (byId (state this)) (candidateId this key attempt)) then this
         else commit key (candidateId this key attempt) this)
      else
        (fst (hashPath this key (attempt + 1)),
         addCollisions (if rejected this (candidateId this key attempt) then 0 else 1)
           (snd (hashPath this key (attempt + 1)))))"
proof (cases "accepted this key attempt")
  case True
  then show ?thesis
    using le by (simp add: hashPath_def upto_rec1 [of attempt] collisionsIn_def)
next
  case False
  have upto: "[attempt..retryLimit this] = attempt # [attempt + 1..retryLimit this]"
    using le by (simp add: upto_rec1)
  show ?thesis
  proof (cases "find (accepted this key) [attempt + 1..retryLimit this]")
    case None
    then show ?thesis
      using False upto by (simp add: hashPath_def collisionsIn_def add.commute)
  next
    case (Some a)
    then have "attempt + 1 \<le> a" by (auto dest: find_upto_ge)
    then have "[attempt..a - 1] = attempt # [attempt + 1..a - 1]"
      by (simp add: upto_rec1)
    then show ?thesis
      using False upto Some
      by (simp add: hashPath_def collisionsIn_def add.commute commit_addCollisions)
  qed
qed

lemma hashPath_beyond: "\<not> attempt \<le> retryLimit this \<Longrightarrow> hashPath this key attempt = (None, this)"
  by (simp add: hashPath_def collisionsIn_def)

lemma hashAttempts_hashPath: "hashAttempts this key attempt = hashPath this key attempt"
proof (induction this key attempt rule: hashAttempts.induct)
  case (1 this key attempt)
  show ?case
  proof (cases "attempt \<le> retryLimit this")
    case False
    then show ?thesis
      by (subst hashAttempts.simps) (simp add: hashPath_beyond)
  next
    case le: True
    define hashId where "hashId = candidateId this key attempt"
    have hid: "hashId = hashToInt (salt this @ '':'' @ numberToString attempt @ '':'' @ key)"
      by (simp add: hashId_def candidateId_def)
    show ?thesis
    proof (cases "hashId \<le> floor' this")
      case True
      then have "hashAttempts this key attempt = hashAttempts this key (attempt + 1)"
        using le hid by (subst hashAttempts.simps) simp
      also have "\<dots> = hashPath this key (attempt + 1)"
        using "1.IH"(1) [OF le hid True] .
      also have "\<dots> = hashPath this key attempt"
        using True by (simp add: hashPath_step [OF le] accepted_def rejected_def hashId_def)
      finally show ?thesis .
    next
      case nf: False
      show ?thesis
      proof (cases "aboveCeiling this hashId")
        case True
        then have "hashAttempts this key attempt = hashAttempts this key (attempt + 1)"
          using le hid nf by (subst hashAttempts.simps) simp
        also have "\<dots> = hashPath this key (attempt + 1)"
          using "1.IH"(2) [OF le hid nf True] .
        also have "\<dots> = hashPath this key attempt"
          using True by (simp add: hashPath_step [OF le] accepted_def rejected_def hashId_def)
        finally show ?thesis .
      next
        case na: False
        define currentKey where "currentKey = map_of (byId (state this)) hashId"
        have nrej: "\<not> rejected this hashId" using nf na by (simp add: rejected_def)
        show ?thesis
        proof (cases "truthy currentKey")
          case False
          then have acc: "accepted this key attempt"
            using nrej by (simp add: accepted_def heldByOther_def hashId_def currentKey_def)
          have "hashAttempts this key attempt =
                  (Some \<lparr> alloc_id = hashId, hashed = True, collisionCount = attempt \<rparr>,
                   commit key hashId this)"
            using le hid nf na False
            by (subst hashAttempts.simps) (simp add: currentKey_def Let_def)
          then show ?thesis
            using acc False by (simp add: hashPath_step [OF le] hashId_def currentKey_def)
        next
          case tr: True
          show ?thesis
          proof (cases "currentKey = Some key")
            case True
            then have acc: "accepted this key attempt"
              using nrej by (simp add: accepted_def heldByOther_def hashId_def currentKey_def)
            have "hashAttempts this key attempt =
                    (Some \<lparr> alloc_id = hashId, hashed = True, collisionCount = attempt \<rparr>, this)"
              using le hid nf na tr True
              by (subst hashAttempts.simps) (simp add: currentKey_def Let_def)
            then show ?thesis
              using acc tr by (simp add: hashPath_step [OF le] hashId_def currentKey_def)
          next
            case other: False
            then have nacc: "\<not> accepted this key attempt"
              using tr by (simp add: accepted_def heldByOther_def hashId_def currentKey_def)
            have "hashAttempts this key attempt = hashAttempts (addCollisions 1 this) key (attempt + 1)"
              using le hid nf na tr other
              by (subst hashAttempts.simps) (simp add: currentKey_def Let_def addCollisions_def)
            also have "\<dots> = hashPath (addCollisions 1 this) key (attempt + 1)"
              using "1.IH"(3) [OF le hid nf na currentKey_def _ other] tr
              by (simp add: addCollisions_def)
            also have "\<dots> = hashPath this key attempt"
              using nacc nrej
              by (simp add: hashPath_addCollisions hashPath_step [OF le] hashId_def)
            finally show ?thesis .
          qed
        qed
      qed
    qed
  qed
qed

lemma nextSequential_result:
  "nextSequential this = (r, this') \<Longrightarrow>
     \<exists>c. nextSeq (state this) \<le> c
       \<and> this' = this\<lparr> state := (state this)\<lparr> nextSeq := c + 1 \<rparr> \<rparr>
       \<and> (\<forall>i. nextSeq (state this) \<le> i \<and> i < c
              \<longrightarrow> \<not> aboveCeiling this i \<and> map_of (byId (state this)) i \<noteq> None)
       \<and> (if aboveCeiling this c then r = Inl ''ID allocator sequential ceiling exhausted''
           else r = Inr c \<and> map_of (byId (state this)) c = None)"
proof (induction this arbitrary: r this' rule: nextSequential.induct)
  case (1 this)
  define candidate where "candidate = nextSeq (state this)"
  define this1 where "this1 = this\<lparr> state := (state this)\<lparr> nextSeq := candidate + 1 \<rparr> \<rparr>"
  show ?case
  proof (cases "aboveCeiling this candidate")
    case True
    then have "nextSequential this = (Inl ''ID allocator sequential ceiling exhausted'', this1)"
      by (subst nextSequential.simps) (simp add: candidate_def this1_def Let_def)
    with "1.prems" True show ?thesis
      by (intro exI [of _ candidate]) (auto simp: candidate_def this1_def)
  next
    case na: False
    show ?thesis
    proof (cases "map_of (byId (state this)) candidate \<noteq> None")
      case False
      then have "nextSequential this = (Inr candidate, this1)"
        using na by (subst nextSequential.simps) (simp add: candidate_def this1_def Let_def)
      with "1.prems" na False show ?thesis
        by (intro exI [of _ candidate]) (auto simp: candidate_def this1_def)
    next
      case taken: True
      then have "nextSequential this = nextSequential this1"
        using na by (subst nextSequential.simps) (simp add: candidate_def this1_def Let_def)
      with "1.prems" have rec: "nextSequential this1 = (r, this')" by simp
      have ac: "aboveCeiling this1 = aboveCeiling this"
        by (rule ext) (simp add: this1_def aboveCeiling_def)
      from "1.IH" [OF candidate_def this1_def na taken rec]
      obtain c where c: "nextSeq (state this1) \<le> c"
        "this' = this1\<lparr> state := (state this1)\<lparr> nextSeq := c + 1 \<rparr> \<rparr>"
        "\<forall>i. nextSeq (state this1) \<le> i \<and> i < c
              \<longrightarrow> \<not> aboveCeiling this1 i \<and> map_of (byId (state this1)) i \<noteq> None"
        "if aboveCeiling this1 c then r = Inl ''ID allocator sequential ceiling exhausted''
           else r = Inr c \<and> map_of (byId (state this1)) c = None"
        by blast
      have "\<forall>i. nextSeq (state this) \<le> i \<and> i < c
              \<longrightarrow> \<not> aboveCeiling this i \<and> map_of (byId (state this)) i \<noteq> None"
      proof (intro allI impI)
        fix i assume i: "nextSeq (state this) \<le> i \<and> i < c"
        show "\<not> aboveCeiling this i \<and> map_of (byId (state this)) i \<noteq> None"
        proof (cases "i = candidate")
          case True then show ?thesis using na taken by simp
        next
          case False
          then have "nextSeq (state this1) \<le> i \<and> i < c"
            using i by (simp add: this1_def candidate_def)
          with c(3) show ?thesis by (simp add: ac) (simp add: this1_def)
        qed
      qed
      moreover have "nextSeq (state this) \<le> c" using c(1) by (simp add: this1_def candidate_def)
      moreover have "this' = this\<lparr> state := (state this)\<lparr> nextSeq := c + 1 \<rparr> \<rparr>"
        using c(2) by (simp add: this1_def)
      moreover have "if aboveCeiling this c then r = Inl ''ID allocator sequential ceiling exhausted''
           else r = Inr c \<and> map_of (byId (state this)) c = None"
        using c(4) unfolding ac by (auto simp: this1_def split: if_splits)
      ultimately show ?thesis by blast
    qed
  qed
qed



section \<open>The allocator: what a call preserves\<close>

lemma allocatorConsistent_iff:
  "allocatorConsistent this \<longleftrightarrow>
     floor' this < nextSeq (state this)
     \<and> (\<forall>k i. map_of (byKey (state this)) k = Some i
           \<longrightarrow> floor' this < i \<and> (k \<noteq> [] \<longrightarrow> map_of (byId (state this)) i = Some k))"
  unfolding allocatorConsistent_def by (auto dest: map_of_SomeD)

lemma extends_refl [simp]: "extends this this"
  by (simp add: extends_def)

lemma extends_trans: "extends a b \<Longrightarrow> extends b c \<Longrightarrow> extends a c"
  by (simp add: extends_def)

lemma commit_consistent:
  assumes inv: "allocatorConsistent this"
    and free: "\<not> truthy (map_of (byId (state this)) i)"
    and fl: "floor' this < i"
  shows "allocatorConsistent (commit key i this)" and "extends this (commit key i this)"
    and "map_of (byId (state (commit key i this))) i = Some key"
    and "map_of (byKey (state (commit key i this))) key = Some i"
proof -
  have other: "j \<noteq> i" if "map_of (byId (state this)) j = Some k" "k \<noteq> []" for j k
    using that free by (auto simp: truthy_def)
  show "allocatorConsistent (commit key i this)"
    using inv fl other unfolding allocatorConsistent_iff
    by (auto simp: commit_def update_conv')
  show "extends this (commit key i this)"
    using other by (auto simp: extends_def commit_def update_conv')
  show "map_of (byId (state (commit key i this))) i = Some key"
    by (simp add: commit_def update_conv')
  show "map_of (byKey (state (commit key i this))) key = Some i"
    by (simp add: commit_def update_conv')
qed

lemma consistent_addCollisions [simp]:
  "allocatorConsistent (addCollisions n this) = allocatorConsistent this"
  by (simp add: allocatorConsistent_def)

lemma extends_addCollisions [simp]:
  "extends this (addCollisions n this')= extends this this'"
  by (simp add: extends_def)

lemma extends_addCollisions_left [simp]:
  "extends (addCollisions n this) this'= extends this this'"
  by (simp add: extends_def)

lemma hashPath_Some:
  assumes "hashPath this key start = (Some r, this')"
  shows "\<exists>a n. start \<le> a \<and> a \<le> retryLimit this \<and> accepted this key a
           \<and> r = \<lparr> alloc_id = candidateId this key a, hashed = True, collisionCount = a \<rparr>
           \<and> this' = (if truthy (map_of (byId (state this)) (candidateId this key a))
                      then addCollisions n this
                      else commit key (candidateId this key a) (addCollisions n this))"
  using assms
  by (auto simp: hashPath_def split: option.splits if_splits dest: find_upto_ge find_Some_iff [THEN iffD1])

lemma hashPath_None:
  assumes "hashPath this key start = (None, this')"
  shows "\<exists>n. this' = addCollisions n this"
  using assms by (auto simp: hashPath_def split: option.splits)

lemma allocate_consistent:
  assumes inv: "allocatorConsistent this" and al: "allocate this key = (res, this')"
  shows "allocatorConsistent this' \<and> extends this this'"
proof (cases "map_of (byKey (state this)) key")
  case (Some existing)
  with al inv show ?thesis by (auto simp: allocate_def)
next
  case None
  obtain hr this1 where h: "hashPath this key 0 = (hr, this1)" by (cases "hashPath this key 0")
  show ?thesis
  proof (cases hr)
    case (Some r)
    with h al None have eq: "this' = this1" by (simp add: allocate_def hashAttempts_hashPath)
    from hashPath_Some [OF h [unfolded Some]] obtain a n where a:
      "accepted this key a"
      "this1 = (if truthy (map_of (byId (state this)) (candidateId this key a))
                then addCollisions n this
                else commit key (candidateId this key a) (addCollisions n this))"
      by blast
    show ?thesis
    proof (cases "truthy (map_of (byId (state this)) (candidateId this key a))")
      case True
      with a eq inv show ?thesis by simp
    next
      case False
      have "floor' this < candidateId this key a"
        using a(1) by (simp add: accepted_def rejected_def)
      with commit_consistent [of "addCollisions n this" "candidateId this key a" key] inv False a eq
      show ?thesis by (simp add: commit_addCollisions)
    qed
  next
    case hNone: None
    from hashPath_None [OF h [unfolded hNone]] obtain n where this1: "this1 = addCollisions n this"
      by blast
    obtain sr this2 where s: "nextSequential this1 = (sr, this2)" by (cases "nextSequential this1")
    from nextSequential_result [OF s] obtain c where c:
      "nextSeq (state this1) \<le> c"
      "this2 = this1\<lparr> state := (state this1)\<lparr> nextSeq := c + 1 \<rparr> \<rparr>"
      "if aboveCeiling this1 c then sr = Inl ''ID allocator sequential ceiling exhausted''
           else sr = Inr c \<and> map_of (byId (state this1)) c = None"
      by blast
    have inv2: "allocatorConsistent this2" "extends this this2"
      using inv c(1,2) this1 by (auto simp: allocatorConsistent_def extends_def)
    show ?thesis
    proof (cases sr)
      case (Inl e)
      with al None h hNone s have "this' = this2"
        by (simp add: allocate_def hashAttempts_hashPath)
      with inv2 show ?thesis by simp
    next
      case (Inr seqId)
      with c(3) have seq: "seqId = c" "map_of (byId (state this1)) c = None"
        by (auto split: if_splits)
      define this3 where "this3 = this2\<lparr> state := (state this2)\<lparr> fallbacks := fallbacks (state this2) + 1 \<rparr> \<rparr>"
      have this': "this' = commit key c this3"
        using al None h hNone s Inr seq by (simp add: allocate_def hashAttempts_hashPath this3_def)
      have inv3: "allocatorConsistent this3" "extends this this3"
        using inv2 by (auto simp: allocatorConsistent_def extends_def this3_def)
      have free3: "\<not> truthy (map_of (byId (state this3)) c)"
        using seq(2) c(2) by (simp add: this3_def truthy_def)
      have fl3: "floor' this3 < c"
        using inv c(1,2) this1 by (simp add: this3_def allocatorConsistent_def)
      from commit_consistent [OF inv3(1) free3 fl3, of key] inv3(2) this'
      show ?thesis by (auto intro: extends_trans)
    qed
  qed
qed

lemma allocate_result:
  assumes inv: "allocatorConsistent this" and al: "allocate this key = (Inr r, this')"
    and key: "key \<noteq> []"
  shows "floor' this < alloc_id r \<and> map_of (byId (state this')) (alloc_id r) = Some key"
proof (cases "map_of (byKey (state this)) key")
  case (Some existing)
  with al inv key show ?thesis by (auto simp: allocate_def allocatorConsistent_iff)
next
  case None
  obtain hr this1 where h: "hashPath this key 0 = (hr, this1)" by (cases "hashPath this key 0")
  show ?thesis
  proof (cases hr)
    case (Some r1)
    with h al None have eq: "this' = this1" "r = r1" by (simp_all add: allocate_def hashAttempts_hashPath)
    from hashPath_Some [OF h [unfolded Some]] obtain a n where a:
      "accepted this key a"
      "r1 = \<lparr> alloc_id = candidateId this key a, hashed = True, collisionCount = a \<rparr>"
      "this1 = (if truthy (map_of (byId (state this)) (candidateId this key a))
                then addCollisions n this
                else commit key (candidateId this key a) (addCollisions n this))"
      by blast
    have fl: "floor' this < candidateId this key a"
      using a(1) by (simp add: accepted_def rejected_def)
    show ?thesis
    proof (cases "truthy (map_of (byId (state this)) (candidateId this key a))")
      case True
      then have "map_of (byId (state this)) (candidateId this key a) = Some key"
        using a(1) by (simp add: accepted_def heldByOther_def)
      with True a eq fl show ?thesis by simp
    next
      case False
      with a eq fl show ?thesis by (simp add: commit_def update_conv')
    qed
  next
    case hNone: None
    from hashPath_None [OF h [unfolded hNone]] obtain n where this1: "this1 = addCollisions n this"
      by blast
    obtain sr this2 where s: "nextSequential this1 = (sr, this2)" by (cases "nextSequential this1")
    from nextSequential_result [OF s] obtain c where c:
      "nextSeq (state this1) \<le> c"
      "if aboveCeiling this1 c then sr = Inl ''ID allocator sequential ceiling exhausted''
           else sr = Inr c \<and> map_of (byId (state this1)) c = None"
      by blast
    from al None h hNone s obtain seqId where sr: "sr = Inr seqId"
      by (cases sr) (auto simp: allocate_def hashAttempts_hashPath)
    with c(2) have seq: "seqId = c" by (auto split: if_splits)
    have "r = \<lparr> alloc_id = c, hashed = False, collisionCount = retryLimit this + 1 \<rparr>"
      and "map_of (byId (state this')) c = Some key"
      using al None h hNone s sr seq
      by (auto simp: allocate_def hashAttempts_hashPath commit_def update_conv')
    moreover have "floor' this < c"
      using inv c(1) this1 by (simp add: allocatorConsistent_def)
    ultimately show ?thesis by simp
  qed
qed

section \<open>The builder\<close>

lemma convertUsers_result:
  assumes "allocatorConsistent alloc" and "convertUsers this clk k rs alloc = (Inr us, alloc')"
  shows "allocatorConsistent alloc' \<and> extends alloc alloc' \<and> map u_id us = map ru_id rs
         \<and> (\<forall>u\<in>set us. floor' alloc < posixUid u
               \<and> map_of (byId (state alloc')) (posixUid u) = Some (''user:'' @ u_id u))"
  using assms
proof (induction rs arbitrary: k alloc us alloc')
  case Nil
  then show ?case by simp
next
  case (Cons user rest)
  from Cons.prems(2) obtain r alloc1 us1 where
    al: "allocate alloc (''user:'' @ ru_id user) = (Inr r, alloc1)"
    and rec: "convertUsers this clk (k + 2) rest alloc1 = (Inr us1, alloc')"
    and us: "us = \<lparr> u_id = ru_id user, username = ru_username user,
                    displayName = orElse (ru_displayName user) (ru_username user),
                    email = ru_email user, active = ru_enabled user, posixUid = alloc_id r,
                    primaryGroupId = getSyntheticPrimaryGroupId this (ru_id user),
                    memberGroupIds = [], createdAt = Some (clk k),
                    updatedAt = Some (clk (k + 1)) \<rparr> # us1"
    by (auto split: prod.splits sum.splits)
  from allocate_consistent [OF Cons.prems(1) al]
  have c1: "allocatorConsistent alloc1" "extends alloc alloc1" by simp_all
  from allocate_result [OF Cons.prems(1) al]
  have r: "floor' alloc < alloc_id r"
    "map_of (byId (state alloc1)) (alloc_id r) = Some (''user:'' @ ru_id user)" by simp_all
  from Cons.IH [OF c1(1) rec]
  have ih: "allocatorConsistent alloc'" "extends alloc1 alloc'" "map u_id us1 = map ru_id rest"
    "\<forall>u\<in>set us1. floor' alloc1 < posixUid u
        \<and> map_of (byId (state alloc')) (posixUid u) = Some (''user:'' @ u_id u)"
    by simp_all
  have "map_of (byId (state alloc')) (alloc_id r) = Some (''user:'' @ ru_id user)"
    using r(2) ih(2) by (simp add: extends_def)
  moreover have "floor' alloc1 = floor' alloc" using c1(2) by (simp add: extends_def)
  ultimately show ?case
    using ih c1 r us by (auto intro: extends_trans)
qed

lemma convertUsers_consistent:
  "allocatorConsistent alloc \<Longrightarrow> allocatorConsistent (snd (convertUsers this clk k rs alloc))"
proof (induction rs arbitrary: k alloc)
  case Nil
  then show ?case by simp
next
  case (Cons user rest)
  obtain res alloc1 where al: "allocate alloc (''user:'' @ ru_id user) = (res, alloc1)"
    by (cases "allocate alloc (''user:'' @ ru_id user)")
  from allocate_consistent [OF Cons.prems al] have c1: "allocatorConsistent alloc1" by simp
  from Cons.IH [OF c1, of "k + 2"] al c1 show ?case
    by (auto split: prod.splits sum.splits)
qed

lemma pushGroupId_ids [simp]:
  "map posixUid (pushGroupId userId gid us) = map posixUid us"
  "map u_id (pushGroupId userId gid us) = map u_id us"
  by (induction us) auto

lemma addMemberships_ids [simp]:
  "map posixUid (addMemberships gid ms us) = map posixUid us"
  "map u_id (addMemberships gid ms us) = map u_id us"
  by (induction ms arbitrary: us) auto

lemma processGroups_users:
  "processGroups this rgs us alloc = (Inr (gs, us'), alloc')
     \<Longrightarrow> map posixUid us' = map posixUid us \<and> map u_id us' = map u_id us"
proof (induction rgs arbitrary: us alloc gs us' alloc')
  case Nil
  then show ?case by simp
next
  case (Cons grp rest)
  from Cons.prems obtain r alloc1 gs1 where
    rec: "processGroups this rest
            (addMemberships (rg_id grp)
               (let memberUserIds = (case rg_members grp of None \<Rightarrow> [] | Some ms \<Rightarrow> ms)
                in if int (length memberUserIds) > maxGroupMembers this
                   then slice0 memberUserIds (maxGroupMembers this) else memberUserIds) us)
            alloc1 = (Inr (gs1, us'), alloc')"
    by (auto simp: Let_def split: prod.splits sum.splits)
  from Cons.IH [OF rec] show ?case by simp
qed

lemma processGroups_groups:
  "processGroups this rgs us alloc = (Inr (gs, us'), alloc')
     \<Longrightarrow> map g_id gs = map rg_id rgs
       \<and> map memberUserIds gs = map (finalMembers this) rgs
       \<and> map truncated gs = map (\<lambda>g. Some (isTruncated this g)) rgs
       \<and> (\<forall>g\<in>set gs. \<not> isSynthetic g)"
proof (induction rgs arbitrary: us alloc gs us' alloc')
  case Nil
  then show ?case by simp
next
  case (Cons grp rest)
  obtain res alloc1 where al: "allocate alloc (''group:'' @ rg_id grp) = (res, alloc1)"
    by (cases "allocate alloc (''group:'' @ rg_id grp)")
  define us1 where "us1 = addMemberships (rg_id grp) (finalMembers this grp) us"
  obtain pr alloc2 where rec: "processGroups this rest us1 alloc1 = (pr, alloc2)"
    by (cases "processGroups this rest us1 alloc1")
  from Cons.prems al rec obtain r where r: "res = Inr r"
    by (cases res) (auto simp: Let_def)
  from Cons.prems al rec r obtain gs1 us2 where pr: "pr = Inr (gs1, us2)"
    by (cases pr) (auto simp: Let_def us1_def finalMembers_def)
  have gs: "gs = \<lparr> g_id = rg_id grp, g_name = rg_name grp, g_description = rg_description grp,
                    memberUserIds = finalMembers this grp, g_memberGroupIds = [],
                    posixGid = alloc_id r, isSynthetic = False,
                    truncated = Some (isTruncated this grp) \<rparr> # gs1"
    and eq: "us' = us2" "alloc' = alloc2"
    using Cons.prems al rec r pr
    by (auto simp: Let_def us1_def finalMembers_def isTruncated_def)
  from Cons.IH [OF rec [unfolded pr eq [symmetric]]] gs show ?case by simp
qed

lemma finalMembers_length:
  "0 \<le> maxGroupMembers this \<Longrightarrow>
     (isTruncated this grp \<longrightarrow>
        finalMembers this grp = take (nat (maxGroupMembers this)) (case rg_members grp of None \<Rightarrow> [] | Some ms \<Rightarrow> ms)
        \<and> int (length (finalMembers this grp)) = maxGroupMembers this)
     \<and> (\<not> isTruncated this grp \<longrightarrow>
        finalMembers this grp = (case rg_members grp of None \<Rightarrow> [] | Some ms \<Rightarrow> ms))"
  by (auto simp: finalMembers_def isTruncated_def slice0_def Let_def)

lemma fetchAll_Inr_iff:
  "fetchAll inp = Inr (rawUsers, rawGroups)
     \<longleftrightarrow> fetchUsers inp = Inr rawUsers \<and> fetchGroups inp = Inr rawGroups"
  by (auto simp: fetchAll_def split: sum.splits)

text \<open>A build that returns a snapshot has gone through its three stages.\<close>

lemma buildSnapshot_stages:
  assumes build: "buildSnapshot this inp = (Inr snap, this')"
  shows "\<exists>rawUsers rawGroups us uidA gs us1 gidA synthetic.
           fetchAll inp = Inr (rawUsers, rawGroups)
           \<and> convertUsers this (clock inp) 0 (filter ru_enabled rawUsers) (uidAllocator this) = (Inr us, uidA)
           \<and> processGroups this rawGroups us (gidAllocator this) = (Inr (gs, us1), gidA)
           \<and> users snap = us1 \<and> groups snap = gs @ synthetic \<and> uidAllocator this' = uidA"
proof -
  from build obtain rawUsers rawGroups where fa: "fetchAll inp = Inr (rawUsers, rawGroups)"
    by (cases "fetchAll inp") (auto simp: buildSnapshot_def)
  obtain ur uidA where cu:
    "convertUsers this (clock inp) 0 (filter ru_enabled rawUsers) (uidAllocator this) = (ur, uidA)"
    by (cases "convertUsers this (clock inp) 0 (filter ru_enabled rawUsers) (uidAllocator this)")
  from build fa cu obtain us where ur: "ur = Inr us"
    by (cases ur) (auto simp: buildSnapshot_def)
  obtain gr gidA where pg: "processGroups this rawGroups us (gidAllocator this) = (gr, gidA)"
    by (cases "processGroups this rawGroups us (gidAllocator this)")
  from build fa cu ur pg obtain gs us1 where gr: "gr = Inr (gs, us1)"
    by (cases gr) (auto simp: buildSnapshot_def)
  from build fa cu ur pg gr have "users snap = us1" "uidAllocator this' = uidA"
    by (auto simp: buildSnapshot_def split: prod.splits sum.splits if_splits)
  moreover from build fa cu ur pg gr obtain synthetic where "groups snap = gs @ synthetic"
    by (auto simp: buildSnapshot_def split: prod.splits sum.splits if_splits)
  ultimately show ?thesis using fa cu ur pg gr by blast
qed

lemma buildSnapshot_groups:
  assumes build: "buildSnapshot this inp = (Inr snap, this')" and fg: "fetchGroups inp = Inr rawGroups"
  shows "length rawGroups \<le> length (groups snap)
           \<and> map g_id (take (length rawGroups) (groups snap)) = map rg_id rawGroups
           \<and> map memberUserIds (take (length rawGroups) (groups snap)) = map (finalMembers this) rawGroups
           \<and> map truncated (take (length rawGroups) (groups snap)) = map (\<lambda>g. Some (isTruncated this g)) rawGroups"
proof -
  from buildSnapshot_stages [OF build] obtain rawUsers rawGroups' us uidA gs us1 gidA synthetic where
    fa: "fetchAll inp = Inr (rawUsers, rawGroups')"
    and pg: "processGroups this rawGroups' us (gidAllocator this) = (Inr (gs, us1), gidA)"
    and snap: "groups snap = gs @ synthetic"
    by blast
  from fa fg have same: "rawGroups' = rawGroups" by (simp add: fetchAll_Inr_iff)
  from processGroups_groups [OF pg [unfolded same]]
  have g: "map g_id gs = map rg_id rawGroups" "map memberUserIds gs = map (finalMembers this) rawGroups"
    "map truncated gs = map (\<lambda>g. Some (isTruncated this g)) rawGroups"
    by simp_all
  have len: "length gs = length rawGroups" using g(1) by (metis length_map)
  show ?thesis using snap g len by simp
qed

lemma newIdAllocator_consistent:
  assumes "case opt_sequentialStart opts of
             None \<Rightarrow> True
           | Some s \<Rightarrow> (case opt_floor opts of None \<Rightarrow> 10000 | Some f \<Rightarrow> f) < s"
  shows "allocatorConsistent (newIdAllocator opts)"
  using assms
  by (simp add: allocatorConsistent_def newIdAllocator_def Let_def split: option.splits)

lemma exampleBuild: "fst (buildSnapshot exampleBuilder exampleInput) = Inr exampleSnapshot"
  by code_simp

section \<open>The content of a build\<close>

lemma moduloTimes_simps [simp]:
  "usersModuloTimes (Inl e) = Inl e" "usersModuloTimes (Inr us) = Inr (map stripTimes us)"
  "groupsModuloTimes (Inl e) = Inl e" "groupsModuloTimes (Inr (gs, us)) = Inr (gs, map stripTimes us)"
  by (simp_all add: usersModuloTimes_def groupsModuloTimes_def)

lemma stripTimes_simps [simp]:
  "u_id (stripTimes u) = u_id u" "username (stripTimes u) = username u"
  "posixUid (stripTimes u) = posixUid u"
  "stripTimes (u\<lparr> memberGroupIds := m \<rparr>) = (stripTimes u)\<lparr> memberGroupIds := m \<rparr>"
  "memberGroupIds (stripTimes u) = memberGroupIds u"
  by (simp_all add: stripTimes_def)

lemma convertUsers_clock:
  assumes "enabledFeatures this = enabledFeatures that"
  shows "snd (convertUsers this c1 k1 rs alloc) = snd (convertUsers that c2 k2 rs alloc)
       \<and> usersModuloTimes (fst (convertUsers this c1 k1 rs alloc))
         = usersModuloTimes (fst (convertUsers that c2 k2 rs alloc))"
proof (induction rs arbitrary: k1 k2 alloc)
  case Nil
  show ?case by simp
next
  case (Cons user rest)
  obtain res alloc1 where al: "allocate alloc (''user:'' @ ru_id user) = (res, alloc1)"
    by (cases "allocate alloc (''user:'' @ ru_id user)")
  show ?case
  proof (cases res)
    case (Inl e)
    with al show ?thesis by simp
  next
    case (Inr r)
    obtain x1 a1 where r1: "convertUsers this c1 (k1 + 2) rest alloc1 = (x1, a1)"
      by (cases "convertUsers this c1 (k1 + 2) rest alloc1")
    obtain x2 a2 where r2: "convertUsers that c2 (k2 + 2) rest alloc1 = (x2, a2)"
      by (cases "convertUsers that c2 (k2 + 2) rest alloc1")
    from Cons.IH [of "k1 + 2" alloc1 "k2 + 2"] r1 r2
    have ih: "a1 = a2" "usersModuloTimes x1 = usersModuloTimes x2" by simp_all
    show ?thesis
      using al Inr r1 r2 ih assms
      by (cases x1; cases x2) (auto simp: stripTimes_def getSyntheticPrimaryGroupId_def)
  qed
qed

lemma pushGroupId_stripTimes:
  "map stripTimes (pushGroupId userId gid us) = pushGroupId userId gid (map stripTimes us)"
  by (induction us) (auto simp: image_iff)

lemma addMemberships_stripTimes:
  "map stripTimes (addMemberships gid ms us) = addMemberships gid ms (map stripTimes us)"
  by (induction ms arbitrary: us) (simp_all add: pushGroupId_stripTimes)

lemma processGroups_stripTimes:
  assumes "maxGroupMembers this = maxGroupMembers that" and "map stripTimes us = map stripTimes vs"
  shows "snd (processGroups this rgs us alloc) = snd (processGroups that rgs vs alloc)
       \<and> groupsModuloTimes (fst (processGroups this rgs us alloc))
         = groupsModuloTimes (fst (processGroups that rgs vs alloc))"
  using assms(2)
proof (induction rgs arbitrary: us vs alloc)
  case Nil
  then show ?case by simp
next
  case (Cons grp rest)
  obtain res alloc1 where al: "allocate alloc (''group:'' @ rg_id grp) = (res, alloc1)"
    by (cases "allocate alloc (''group:'' @ rg_id grp)")
  show ?case
  proof (cases res)
    case (Inl e)
    with al show ?thesis by simp
  next
    case (Inr r)
    define us1 where "us1 = addMemberships (rg_id grp) (finalMembers this grp) us"
    define vs1 where "vs1 = addMemberships (rg_id grp) (finalMembers that grp) vs"
    have fm: "finalMembers that grp = finalMembers this grp"
      by (simp add: finalMembers_def assms(1) Let_def cong: if_cong)
    have eq1: "map stripTimes us1 = map stripTimes vs1"
      using Cons.prems by (simp add: us1_def vs1_def fm addMemberships_stripTimes)
    obtain x1 a1 where r1: "processGroups this rest us1 alloc1 = (x1, a1)"
      by (cases "processGroups this rest us1 alloc1")
    obtain x2 a2 where r2: "processGroups that rest vs1 alloc1 = (x2, a2)"
      by (cases "processGroups that rest vs1 alloc1")
    from Cons.IH [OF eq1, of alloc1] r1 r2
    have ih: "a1 = a2"
      "groupsModuloTimes x1
         = groupsModuloTimes x2" by simp_all
    have u1: "processGroups this (grp # rest) us alloc =
        (case x1 of Inl e \<Rightarrow> (Inl e, a1)
         | Inr (gs, us2) \<Rightarrow>
            (Inr (\<lparr> g_id = rg_id grp, g_name = rg_name grp, g_description = rg_description grp,
                    memberUserIds = finalMembers this grp, g_memberGroupIds = [],
                    posixGid = alloc_id r, isSynthetic = False,
                    truncated = Some (isTruncated this grp) \<rparr> # gs, us2), a1))"
      using al Inr r1
      by (simp add: Let_def us1_def finalMembers_def isTruncated_def split: sum.splits)
    have u2: "processGroups that (grp # rest) vs alloc =
        (case x2 of Inl e \<Rightarrow> (Inl e, a2)
         | Inr (gs, us2) \<Rightarrow>
            (Inr (\<lparr> g_id = rg_id grp, g_name = rg_name grp, g_description = rg_description grp,
                    memberUserIds = finalMembers that grp, g_memberGroupIds = [],
                    posixGid = alloc_id r, isSynthetic = False,
                    truncated = Some (isTruncated that grp) \<rparr> # gs, us2), a2))"
      using al Inr r2
      by (simp add: Let_def vs1_def finalMembers_def isTruncated_def split: sum.splits)
    have it: "isTruncated that grp = isTruncated this grp"
      by (simp add: isTruncated_def assms(1))
    show ?thesis
      unfolding u1 u2 using ih fm it by (cases x1; cases x2) auto
  qed
qed

lemma createSynthetic_stripTimes:
  "map stripTimes us = map stripTimes vs
     \<Longrightarrow> createSyntheticPrimaryGroups us alloc = createSyntheticPrimaryGroups vs alloc"
proof (induction us arbitrary: vs alloc)
  case Nil
  then show ?case by simp
next
  case (Cons u us)
  then obtain v vs' where vs: "vs = v # vs'" "stripTimes u = stripTimes v"
    "map stripTimes us = map stripTimes vs'"
    by (cases vs) auto
  from vs(2) have same: "u_id u = u_id v" "username u = username v"
    by (metis stripTimes_simps(1), metis stripTimes_simps(2))
  from Cons.IH [OF vs(3)] same vs(1) show ?case by (auto split: prod.splits sum.splits)
qed

lemma snapshotContent_simps [simp]:
  "snapshotContent (Inl e) = Inl e"
  "snapshotContent (Inr s) = Inr (map stripTimes (users s), groups s, featureFlags s)"
  by (simp_all add: snapshotContent_def)

lemma usersModuloTimes_eq_Inr:
  "usersModuloTimes x = Inr ws \<Longrightarrow> \<exists>vs. x = Inr vs \<and> map stripTimes vs = ws"
  by (cases x) auto

lemma groupsModuloTimes_eq_Inr:
  "groupsModuloTimes x = Inr (gs, ws) \<Longrightarrow> \<exists>vs. x = Inr (gs, vs) \<and> map stripTimes vs = ws"
  by (cases x) auto

section \<open>The scheduler\<close>

lemma scheduleNext_snapshot [simp]: "currentSnapshot (scheduleNext this) = currentSnapshot this"
  by (simp add: scheduleNext_def)

lemma refreshFailed_snapshot [simp]:
  "currentSnapshot (snd (refreshFailed this e)) = currentSnapshot this"
  by (simp add: refreshFailed_def Let_def)

lemma performRefresh_failure:
  "isl (fst (buildSnapshot (snapshotBuilder this) inp))
     \<Longrightarrow> currentSnapshot (snd (performRefresh this inp notify)) = currentSnapshot this
       \<and> \<not> success (fst (performRefresh this inp notify))"
  by (cases "buildSnapshot (snapshotBuilder this) inp")
     (auto simp: performRefresh_def refreshFailed_def Let_def split: sum.splits)

lemma schedulerStep_keeps_snapshot:
  "buildOf ev this = None \<or> buildFails ev this
     \<Longrightarrow> currentSnapshot (schedulerStep ev this) = currentSnapshot this"
proof (cases ev)
  case (Start inp notify)
  assume "buildOf ev this = None \<or> buildFails ev this"
  with Start show ?thesis
    using performRefresh_failure
      [of "this\<lparr> isRunning := True, consecutiveFailures := 0, currentBackoffMs := Num 0 \<rparr>" inp notify]
    by (auto simp: buildFails_def split: if_splits)
next
  case Stop
  then show ?thesis by simp
next
  case (TimerFires inp notify)
  assume "buildOf ev this = None \<or> buildFails ev this"
  with TimerFires show ?thesis
    using performRefresh_failure [of this inp notify]
    by (auto simp: buildFails_def split: if_splits)
next
  case (ForceRefresh inp notify)
  assume "buildOf ev this = None \<or> buildFails ev this"
  with ForceRefresh show ?thesis
    using performRefresh_failure [of this inp notify]
    by (auto simp: buildFails_def split: if_splits)
qed

section \<open>Search: the entries and the final message\<close>

lemma dnOf_user [simp]: "dnOf (buildUserAttributes u context) = userDN context u"
  by (simp add: dnOf_def buildUserAttributes_def userDN_def Let_def)

lemma dnOf_group [simp]: "dnOf (buildGroupAttributes g context) = groupDN context g"
  by (simp add: dnOf_def buildGroupAttributes_def groupDN_def)

lemma dnOf_ou [simp]: "dnOf (ouAttrs ou descr base) = ''ou='' @ ou @ '','' @ base"
  by (simp add: dnOf_def ouAttrs_def)

lemma objectName_createEntry [simp]: "objectName (createEntry attrs ra t) = dnOf attrs"
  by (simp add: createEntry_def)

lemma subseq_map_filter: "subseq (map f (filter P xs)) (map f xs)"
  by (simp add: subseq_map)

lemma searchUsers_names:
  "subseq (map objectName (searchUsers context)) (map (userDN context) (ctx_users context))"
proof -
  have "map objectName (searchUsers context) =
          map (userDN context)
            (filter (\<lambda>u. isInSearchScope (userDN context u) (baseObject (ctx_request context))
                              (scope (ctx_request context))
                          \<and> matchesFilter (req_filter (ctx_request context)) (buildUserAttributes u context))
               (ctx_users context))"
    by (simp add: searchUsers_def Let_def filter_map comp_def)
  then show ?thesis by (simp only: subseq_map_filter)
qed

lemma searchGroups_names:
  "subseq (map objectName (searchGroups context)) (map (groupDN context) (ctx_groups context))"
proof -
  have "map objectName (searchGroups context) =
          map (groupDN context)
            (filter (\<lambda>g. isInSearchScope (groupDN context g) (baseObject (ctx_request context))
                              (scope (ctx_request context))
                          \<and> matchesFilter (req_filter (ctx_request context)) (buildGroupAttributes g context))
               (ctx_groups context))"
    by (simp add: searchGroups_def Let_def filter_map comp_def)
  then show ?thesis by (simp only: subseq_map_filter)
qed

lemma createOUEntries_names:
  "subseq (map objectName (createOUEntries context request))
     [''ou=users,'' @ ctx_baseDN context, ''ou=groups,'' @ ctx_baseDN context]"
  by (simp add: createOUEntries_def)

lemma doneCode_searchDone [simp]: "doneCode (searchDone mid controls code msg) = Some code"
  by (simp add: doneCode_def searchDone_def)



section \<open>Bind: results\<close>

text \<open>
  C1 (as stated): a simple Bind with empty DN and empty password succeeds if and only if
  \<open>allowAnonymousBind\<close> is true, whatever the service account is. This fails: with no
  service account configured the first branch of \<open>handleBind\<close> answers success although
  \<open>allowAnonymousBind\<close> is false.
\<close>

theorem C1_counterexample:
  "resultCode (handleBind
       (newLDAPServer \<lparr> opt_port = None, opt_bindDN = None, opt_bindPassword = None,
                        opt_baseDN = ''dc=example,dc=com'', opt_sizeLimit = None,
                        opt_allowAnonymousBind = Some False \<rparr>)
       \<lparr> version = 3, name = [], authentication = SimpleAuthentication [] \<rparr>) = Success
   \<and> \<not> allowAnonymousBind
       (newLDAPServer \<lparr> opt_port = None, opt_bindDN = None, opt_bindPassword = None,
                        opt_baseDN = ''dc=example,dc=com'', opt_sizeLimit = None,
                        opt_allowAnonymousBind = Some False \<rparr>)"
  by (simp add: handleBind_def newLDAPServer_def truthy_def)

text \<open>
  C1 (amended): a simple Bind with empty DN and empty password succeeds if and only if
  \<open>allowAnonymousBind\<close> is true or neither \<open>bindDN\<close> nor \<open>bindPassword\<close> is configured
  (each undefined or empty).
\<close>

theorem C1_anonymous_bind:
  "resultCode (handleBind this \<lparr> version = v, name = [], authentication = SimpleAuthentication [] \<rparr>) = Success
   \<longleftrightarrow> allowAnonymousBind this \<or> (\<not> truthy (bindDN this) \<and> \<not> truthy (bindPassword this))"
  by (auto simp: handleBind_def truthy_def split: option.splits)

theorem C1_anonymous_bind_witness:
  "resultCode (handleBind
       \<lparr> port = 389, bindDN = Some ''cn=svc,dc=example,dc=com'', bindPassword = Some ''s3cret'',
         baseDN = ''dc=example,dc=com'', sizeLimit = 1000, allowAnonymousBind = False, srv_currentSnapshot = None \<rparr>
       \<lparr> version = 3, name = [], authentication = SimpleAuthentication [] \<rparr>) \<noteq> Success
   \<and> resultCode (handleBind
       \<lparr> port = 389, bindDN = Some ''cn=svc,dc=example,dc=com'', bindPassword = Some ''s3cret'',
         baseDN = ''dc=example,dc=com'', sizeLimit = 1000, allowAnonymousBind = True, srv_currentSnapshot = None \<rparr>
       \<lparr> version = 3, name = [], authentication = SimpleAuthentication [] \<rparr>) = Success"
  using C1_anonymous_bind [of "\<lparr> port = 389, bindDN = Some ''cn=svc,dc=example,dc=com'',
         bindPassword = Some ''s3cret'', baseDN = ''dc=example,dc=com'', sizeLimit = 1000,
         allowAnonymousBind = False, srv_currentSnapshot = None \<rparr>" 3]
    C1_anonymous_bind [of "\<lparr> port = 389, bindDN = Some ''cn=svc,dc=example,dc=com'',
         bindPassword = Some ''s3cret'', baseDN = ''dc=example,dc=com'', sizeLimit = 1000,
         allowAnonymousBind = True, srv_currentSnapshot = None \<rparr>" 3]
  by (simp add: truthy_def)

text \<open>
  C10: if \<open>allowAnonymousBind\<close> is true, \<open>handleBind\<close> answers success to every
  BindRequest: simple with any DN and password, and SASL. The configured credentials are
  not compared in that mode.
\<close>

theorem C10_anonymous_mode_accepts_all:
  "allowAnonymousBind this \<Longrightarrow> resultCode (handleBind this request) = Success"
  by (simp add: handleBind_def)

theorem C10_anonymous_mode_accepts_all_witness:
  "resultCode (handleBind
       \<lparr> port = 389, bindDN = Some ''cn=svc,dc=example,dc=com'', bindPassword = Some ''s3cret'',
         baseDN = ''dc=example,dc=com'', sizeLimit = 1000, allowAnonymousBind = True, srv_currentSnapshot = None \<rparr>
       \<lparr> version = 3, name = ''cn=someone,dc=example,dc=com'',
         authentication = SimpleAuthentication ''wrong'' \<rparr>) = Success
   \<and> resultCode (handleBind
       \<lparr> port = 389, bindDN = Some ''cn=svc,dc=example,dc=com'', bindPassword = Some ''s3cret'',
         baseDN = ''dc=example,dc=com'', sizeLimit = 1000, allowAnonymousBind = True, srv_currentSnapshot = None \<rparr>
       \<lparr> version = 3, name = ''cn=svc,dc=example,dc=com'',
         authentication = SaslAuthentication ''PLAIN'' None \<rparr>) = Success"
  using C10_anonymous_mode_accepts_all [of "\<lparr> port = 389, bindDN = Some ''cn=svc,dc=example,dc=com'',
         bindPassword = Some ''s3cret'', baseDN = ''dc=example,dc=com'', sizeLimit = 1000,
         allowAnonymousBind = True, srv_currentSnapshot = None \<rparr>"]
  by simp

section \<open>Allocation of an id for a new key\<close>








section \<open>Determinism of the build\<close>

text \<open>
  C3 (as stated): two builds over the same adaptor output, the same allocator state and
  the same feature flags give equal snapshots. This fails. The builder counts its builds
  and stamps the count on the snapshot: the same builder, whose allocators an empty build
  leaves as they were, returns \<open>sequence\<close> 1 and then 2. The time stamps are read from the
  clock during the build: the same builder state with a later clock returns another
  \<open>generatedAt\<close> and other \<open>createdAt\<close> and \<open>updatedAt\<close> in the users. And the group size
  limit is a setting of the builder of its own: with the limit 2 instead of 5000 the
  first group has other members.
\<close>

theorem C3_counterexample:
  "uidAllocator (snd (buildSnapshot exampleBuilder emptyInput)) = uidAllocator exampleBuilder
   \<and> gidAllocator (snd (buildSnapshot exampleBuilder emptyInput)) = gidAllocator exampleBuilder
   \<and> enabledFeatures (snd (buildSnapshot exampleBuilder emptyInput)) = enabledFeatures exampleBuilder
   \<and> map_sum id sequence (fst (buildSnapshot exampleBuilder emptyInput)) = Inr 1
   \<and> map_sum id sequence (fst (buildSnapshot (snd (buildSnapshot exampleBuilder emptyInput)) emptyInput))
       = Inr 2
   \<and> map_sum id generatedAt (fst (buildSnapshot exampleBuilder exampleInput))
       = Inr ''2025-09-16T00:00:00.000Z''
   \<and> map_sum id generatedAt
        (fst (buildSnapshot exampleBuilder (exampleInput\<lparr> clock := (\<lambda>k. ''2025-09-16T00:05:00.000Z'') \<rparr>)))
       = Inr ''2025-09-16T00:05:00.000Z''
   \<and> map_sum id (map createdAt \<circ> users) (fst (buildSnapshot exampleBuilder exampleInput))
       = Inr [Some ''2025-09-16T00:00:00.000Z'', Some ''2025-09-16T00:00:00.000Z'']
   \<and> map_sum id (map createdAt \<circ> users)
        (fst (buildSnapshot exampleBuilder (exampleInput\<lparr> clock := (\<lambda>k. ''2025-09-16T00:05:00.000Z'') \<rparr>)))
       = Inr [Some ''2025-09-16T00:05:00.000Z'', Some ''2025-09-16T00:05:00.000Z'']
   \<and> map_sum id (map updatedAt \<circ> users)
        (fst (buildSnapshot exampleBuilder (exampleInput\<lparr> clock := (\<lambda>k. ''2025-09-16T00:05:00.000Z'') \<rparr>)))
       = Inr [Some ''2025-09-16T00:05:00.000Z'', Some ''2025-09-16T00:05:00.000Z'']
   \<and> map_sum id (memberUserIds \<circ> hd \<circ> groups) (fst (buildSnapshot exampleBuilder exampleInput))
       = Inr [''u1'', ''u2'', ''u3'']
   \<and> map_sum id (memberUserIds \<circ> hd \<circ> groups)
        (fst (buildSnapshot (exampleBuilder\<lparr> maxGroupMembers := 2 \<rparr>) exampleInput))
       = Inr [''u1'', ''u2'']"
  by code_simp

text \<open>
  C3 (amended): two builds over the same adaptor output, from builders with equal
  allocator states, the same feature flags and the same group size limit, give the same
  content, that is the same users apart from \<open>createdAt\<close> and \<open>updatedAt\<close>, the same groups
  and the same feature flags, or fail with the same error; and they leave the allocators
  in equal states. The \<open>sequence\<close> of a snapshot is the number of builds of its builder,
  and its \<open>generatedAt\<close> is the reading of the clock at the end of the build.
\<close>

theorem C3_build_content_deterministic:
  assumes ua: "uidAllocator this = uidAllocator that"
    and ga: "gidAllocator this = gidAllocator that"
    and ef: "enabledFeatures this = enabledFeatures that"
    and mg: "maxGroupMembers this = maxGroupMembers that"
    and fa: "fetchAll inp = fetchAll inp'"
  shows "snapshotContent (fst (buildSnapshot this inp)) = snapshotContent (fst (buildSnapshot that inp'))
       \<and> uidAllocator (snd (buildSnapshot this inp)) = uidAllocator (snd (buildSnapshot that inp'))
       \<and> gidAllocator (snd (buildSnapshot this inp)) = gidAllocator (snd (buildSnapshot that inp'))
       \<and> (\<forall>snap. fst (buildSnapshot this inp) = Inr snap \<longrightarrow>
             sequence snap = sequenceCounter this + 1
             \<and> generatedAt snap = clock inp (2 * length (users snap)))"
proof (cases "fetchAll inp")
  case (Inl e)
  moreover from Inl fa have "fetchAll inp' = Inl e" by simp
  ultimately show ?thesis using ua ga by (simp add: buildSnapshot_def)
next
  case (Inr raw)
  obtain rawUsers rawGroups where raw: "raw = (rawUsers, rawGroups)" by (cases raw)
  from Inr raw have f: "fetchAll inp = Inr (rawUsers, rawGroups)" by simp
  with fa have f': "fetchAll inp' = Inr (rawUsers, rawGroups)" by simp
  define rs where "rs = filter ru_enabled rawUsers"
  obtain x1 a1 where c1: "convertUsers this (clock inp) 0 rs (uidAllocator this) = (x1, a1)"
    by (cases "convertUsers this (clock inp) 0 rs (uidAllocator this)")
  obtain x2 a2 where c2: "convertUsers that (clock inp') 0 rs (uidAllocator that) = (x2, a2)"
    by (cases "convertUsers that (clock inp') 0 rs (uidAllocator that)")
  from convertUsers_clock [OF ef, of "clock inp" 0 rs "uidAllocator this" "clock inp'" 0] c1 c2 ua
  have a: "a2 = a1" and x: "usersModuloTimes x1 = usersModuloTimes x2" by simp_all
  show ?thesis
  proof (cases x1)
    case (Inl e)
    with x have x2: "x2 = Inl e" by (cases x2) auto
    show ?thesis
      by (simp add: buildSnapshot_def f f' rs_def [symmetric] c1 c2 Inl x2 a ga)
  next
    case us: (Inr us)
    from x us have "usersModuloTimes x2 = Inr (map stripTimes us)" by simp
    then obtain vs where vs: "x2 = Inr vs" and sv: "map stripTimes vs = map stripTimes us"
      by (blast dest: usersModuloTimes_eq_Inr)
    obtain y1 b1 where p1: "processGroups this rawGroups us (gidAllocator this) = (y1, b1)"
      by (cases "processGroups this rawGroups us (gidAllocator this)")
    obtain y2 b2 where p2: "processGroups that rawGroups vs (gidAllocator that) = (y2, b2)"
      by (cases "processGroups that rawGroups vs (gidAllocator that)")
    from processGroups_stripTimes [OF mg sv [symmetric], of rawGroups "gidAllocator this"] p1 p2 ga
    have b: "b2 = b1" and y: "groupsModuloTimes y1 = groupsModuloTimes y2" by simp_all
    show ?thesis
    proof (cases y1)
      case (Inl e)
      with y have y2: "y2 = Inl e" by (cases y2) auto
      show ?thesis
        by (simp add: buildSnapshot_def f f' rs_def [symmetric] c1 c2 us vs p1 p2 Inl y2 a b)
    next
      case (Inr pair)
      obtain gs us1 where pair: "pair = (gs, us1)" by (cases pair)
      from y Inr pair have "groupsModuloTimes y2 = Inr (gs, map stripTimes us1)" by simp
      then obtain vs1 where y2: "y2 = Inr (gs, vs1)"
        and sv1: "map stripTimes vs1 = map stripTimes us1"
        by (blast dest: groupsModuloTimes_eq_Inr)
      have syn: "createSyntheticPrimaryGroups vs1 b1 = createSyntheticPrimaryGroups us1 b1"
        by (rule createSynthetic_stripTimes) (simp add: sv1)
      obtain z c where s1: "createSyntheticPrimaryGroups us1 b1 = (z, c)"
        by (cases "createSyntheticPrimaryGroups us1 b1")
      have ef': "enabledFeatures that = enabledFeatures this" using ef by simp
      show ?thesis
        by (cases z)
           (simp_all add: buildSnapshot_def f f' rs_def [symmetric] c1 c2 us vs p1 p2
              Inr pair y2 a b syn s1 ef' sv1)
    qed
  qed
qed

theorem C3_build_content_deterministic_witness:
  "snapshotContent (fst (buildSnapshot exampleBuilder exampleInput))
     = snapshotContent (fst (buildSnapshot (exampleBuilder\<lparr> sequenceCounter := 41 \<rparr>)
                          (exampleInput\<lparr> clock := (\<lambda>k. ''2025-09-16T00:05:00.000Z'') \<rparr>)))
   \<and> fst (buildSnapshot exampleBuilder exampleInput) = Inr exampleSnapshot
   \<and> sequence exampleSnapshot = 1
   \<and> generatedAt exampleSnapshot = ''2025-09-16T00:00:00.000Z''"
proof -
  note t = C3_build_content_deterministic [of exampleBuilder "exampleBuilder\<lparr> sequenceCounter := 41 \<rparr>"
      exampleInput "exampleInput\<lparr> clock := (\<lambda>k. ''2025-09-16T00:05:00.000Z'') \<rparr>"]
  have f: "fetchAll exampleInput = fetchAll (exampleInput\<lparr> clock := (\<lambda>k. ''2025-09-16T00:05:00.000Z'') \<rparr>)"
    by (simp add: fetchAll_def exampleInput_def)
  have b: "fst (buildSnapshot exampleBuilder exampleInput) = Inr exampleSnapshot" by (rule exampleBuild)
  have s: "sequenceCounter exampleBuilder = 0" by code_simp
  have g: "clock exampleInput (2 * length (users exampleSnapshot)) = ''2025-09-16T00:00:00.000Z''"
    by (simp add: exampleInput_def)
  from t f b s g show ?thesis by simp
qed

section \<open>Failed refreshes\<close>

text \<open>
  C4: an event whose build fails (a fetch of the adaptor or the construction of the
  snapshot throws) leaves the scheduler's current snapshot as it was; so does any sequence
  of such events, however many consecutive failures it holds, up to \<open>maxRetries\<close> and
  beyond.
\<close>

theorem C4_failed_builds_keep_snapshot:
  "noBuildSucceeds evs this \<Longrightarrow> currentSnapshot (runScheduler evs this) = currentSnapshot this"
proof (induction evs arbitrary: this)
  case Nil
  show ?case by simp
next
  case (Cons ev evs)
  from Cons.prems have step: "buildOf ev this = None \<or> buildFails ev this"
    and rest: "noBuildSucceeds evs (schedulerStep ev this)"
    by simp_all
  from Cons.IH [OF rest] schedulerStep_keeps_snapshot [OF step] show ?case by simp
qed

theorem C4_failed_builds_keep_snapshot_witness:
  "noBuildSucceeds failingEvents exampleScheduler
   \<and> currentSnapshot exampleScheduler = Some exampleSnapshot
   \<and> currentSnapshot (runScheduler failingEvents exampleScheduler) = Some exampleSnapshot
   \<and> consecutiveFailures (runScheduler failingEvents exampleScheduler) = 3
   \<and> maxRetries exampleScheduler = 2
   \<and> \<not> isRunning (runScheduler failingEvents exampleScheduler)"
proof -
  have h: "noBuildSucceeds failingEvents exampleScheduler" by code_simp
  have s: "currentSnapshot exampleScheduler = Some exampleSnapshot" by code_simp
  have r: "consecutiveFailures (runScheduler failingEvents exampleScheduler) = 3
           \<and> maxRetries exampleScheduler = 2
           \<and> \<not> isRunning (runScheduler failingEvents exampleScheduler)" by code_simp
  from C4_failed_builds_keep_snapshot [OF h] h s r show ?thesis by simp
qed

section \<open>Search: the size limit\<close>

text \<open>
  C5: the effective cap is the server limit lowered by a client limit above 0, and a
  truncated result ends with \<open>sizeLimitExceeded (4)\<close>; a client limit of 1 over more than one
  eligible entry gives one entry and then a Done with code 4. \<open>applyLimits\<close> computes that
  cap, but \<open>handleSearch\<close> chooses the result code by comparing the number of entries found
  with the server limit alone. Here the server limit is 1000, the search finds six
  eligible entries, and the client limit is 1: one entry is sent, and the Done carries
  \<open>success (0)\<close>.
\<close>

theorem C5_client_limit_reports_success:
  "handleSearch exampleServer 7 (exampleRequest\<lparr> req_sizeLimit := 1 \<rparr>) None
     = [\<lparr> messageID = 7,
           protocolOp = SearchResultEntryOp
             \<lparr> objectName = ''uid=bob,ou=users,dc=example,dc=com'',
               entryAttributes = [\<lparr> attrType = ''cn'', vals = [''bob''] \<rparr>] \<rparr>,
           msgControls = None \<rparr>,
        \<lparr> messageID = 7,
           protocolOp = SearchResultDoneOp
             \<lparr> resultCode = Success, matchedDN = [], diagnosticMessage = ''Search completed'' \<rparr>,
           msgControls = None \<rparr>]
   \<and> length (executeSearch (createSearchContext exampleServer (srv_currentSnapshot exampleServer)
                 (normalizeSearchRequest (exampleRequest\<lparr> req_sizeLimit := 1 \<rparr>)))) = 6
   \<and> sizeLimit exampleServer = 1000
   \<and> resultCodeValue Success = 0
   \<and> resultCodeValue SizeLimitExceeded = 4"
  by code_simp

section \<open>Search: filters with an unknown tag\<close>




section \<open>Search: the order of the entries\<close>

text \<open>
  C7 (as stated): the entries of a search come in the order: organizational units first,
  then the users in ascending \<open>uid\<close>, then the groups in ascending \<open>cn\<close>. This fails: the
  subtree search of the example returns \<open>bob\<close> before \<open>alice\<close>, then \<open>staff\<close> before
  \<open>admins\<close>, and the two organizational units last. The snapshot holds its users and
  groups in that order, which is the order of the adaptor.
\<close>

theorem C7_counterexample:
  "map (\<lambda>m. case protocolOp m of SearchResultEntryOp e \<Rightarrow> objectName e | SearchResultDoneOp d \<Rightarrow> ''Done'')
     (handleSearch exampleServer 7 exampleRequest None)
     = [''uid=bob,ou=users,dc=example,dc=com'',
        ''uid=alice,ou=users,dc=example,dc=com'',
        ''cn=staff,ou=groups,dc=example,dc=com'',
        ''cn=admins,ou=groups,dc=example,dc=com'',
        ''ou=users,dc=example,dc=com'',
        ''ou=groups,dc=example,dc=com'',
        ''Done'']
   \<and> map username (users exampleSnapshot) = [''bob'', ''alice'']
   \<and> map g_name (groups exampleSnapshot) = [''staff'', ''admins'']"
  by code_simp

text \<open>
  C7 (amended): in the scope pass of a search (every search but the base search of the
  empty DN, which returns the root entry before the pass), the entries come in the order:
  the user entries, in the order in which the snapshot holds the users; then the group
  entries, in the order in which the snapshot holds the groups; then the organizational
  units, \<open>ou=users\<close> before \<open>ou=groups\<close>.
\<close>

theorem C7_search_order:
  assumes "\<not> (baseObject (ctx_request context) = [] \<and> scope (ctx_request context) = 0)"
  shows "\<exists>userEntries groupEntries ouEntries.
           executeSearch context = userEntries @ groupEntries @ ouEntries
           \<and> subseq (map objectName userEntries) (map (userDN context) (ctx_users context))
           \<and> subseq (map objectName groupEntries) (map (groupDN context) (ctx_groups context))
           \<and> subseq (map objectName ouEntries)
                [''ou=users,'' @ ctx_baseDN context, ''ou=groups,'' @ ctx_baseDN context]"
proof (intro exI conjI)
  show "executeSearch context = searchUsers context @ searchGroups context
          @ (if scope (ctx_request context) \<noteq> 0 then createOUEntries context (ctx_request context) else [])"
    using assms by (auto simp: executeSearch_def Let_def)
  show "subseq (map objectName (searchUsers context)) (map (userDN context) (ctx_users context))"
    by (rule searchUsers_names)
  show "subseq (map objectName (searchGroups context)) (map (groupDN context) (ctx_groups context))"
    by (rule searchGroups_names)
  show "subseq (map objectName (if scope (ctx_request context) \<noteq> 0
                                then createOUEntries context (ctx_request context) else []))
          [''ou=users,'' @ ctx_baseDN context, ''ou=groups,'' @ ctx_baseDN context]"
    using createOUEntries_names [of "context" "ctx_request context"] by simp
qed

theorem C7_search_order_witness:
  "\<not> (baseObject exampleRequest = [] \<and> scope exampleRequest = 0)
   \<and> (\<exists>userEntries groupEntries ouEntries.
         executeSearch (createSearchContext exampleServer (Some exampleSnapshot) exampleRequest)
           = userEntries @ groupEntries @ ouEntries
         \<and> subseq (map objectName userEntries)
              [''uid=bob,ou=users,dc=example,dc=com'', ''uid=alice,ou=users,dc=example,dc=com'']
         \<and> subseq (map objectName groupEntries)
              [''cn=staff,ou=groups,dc=example,dc=com'', ''cn=admins,ou=groups,dc=example,dc=com'']
         \<and> subseq (map objectName ouEntries)
              [''ou=users,dc=example,dc=com'', ''ou=groups,dc=example,dc=com''])"
proof -
  define ctx where "ctx = createSearchContext exampleServer (Some exampleSnapshot) exampleRequest"
  have r: "\<not> (baseObject exampleRequest = [] \<and> scope exampleRequest = 0)"
    by (simp add: exampleRequest_def)
  have h: "\<not> (baseObject (ctx_request ctx) = [] \<and> scope (ctx_request ctx) = 0)"
    by (simp add: ctx_def createSearchContext_def exampleRequest_def)
  have u: "map (userDN ctx) (ctx_users ctx)
             = [''uid=bob,ou=users,dc=example,dc=com'', ''uid=alice,ou=users,dc=example,dc=com'']"
    unfolding ctx_def by code_simp
  have g: "map (groupDN ctx) (ctx_groups ctx)
             = [''cn=staff,ou=groups,dc=example,dc=com'', ''cn=admins,ou=groups,dc=example,dc=com'']"
    unfolding ctx_def by code_simp
  have b: "[''ou=users,'' @ ctx_baseDN ctx, ''ou=groups,'' @ ctx_baseDN ctx]
             = [''ou=users,dc=example,dc=com'', ''ou=groups,dc=example,dc=com'']"
    unfolding ctx_def by code_simp
  from C7_search_order [OF h]
  have "\<exists>userEntries groupEntries ouEntries.
           executeSearch ctx = userEntries @ groupEntries @ ouEntries
           \<and> subseq (map objectName userEntries)
                [''uid=bob,ou=users,dc=example,dc=com'', ''uid=alice,ou=users,dc=example,dc=com'']
           \<and> subseq (map objectName groupEntries)
                [''cn=staff,ou=groups,dc=example,dc=com'', ''cn=admins,ou=groups,dc=example,dc=com'']
           \<and> subseq (map objectName ouEntries)
                [''ou=users,dc=example,dc=com'', ''ou=groups,dc=example,dc=com'']"
    by (simp only: u g b)
  with r show ?thesis by (simp only: ctx_def simp_thms)
qed

section \<open>Group truncation\<close>

text \<open>
  C8: \<open>maxGroupMembers\<close> is a number of members, so it is not negative. For every raw
  group with strictly more than \<open>maxGroupMembers\<close> (default 5000) members, the built
  snapshot has that group, at the position of the raw group, with exactly
  \<open>maxGroupMembers\<close> members (the first ones) and \<open>truncated = true\<close>; every group at or
  below the limit keeps its full member list with \<open>truncated = false\<close>. In particular, under
  the default limit, a group with 5001 candidate members appears with 5000 members and
  \<open>truncated = true\<close>.
\<close>

theorem C8_group_truncation:
  assumes build: "buildSnapshot this inp = (Inr snap, this')"
    and fg: "fetchGroups inp = Inr rawGroups"
    and nonneg: "0 \<le> maxGroupMembers this"
    and i: "i < length rawGroups"
    and members: "members = (case rg_members (rawGroups ! i) of None \<Rightarrow> [] | Some ms \<Rightarrow> ms)"
  shows "i < length (groups snap) \<and> g_id (groups snap ! i) = rg_id (rawGroups ! i)
         \<and> (int (length members) > maxGroupMembers this \<longrightarrow>
              memberUserIds (groups snap ! i) = take (nat (maxGroupMembers this)) members
              \<and> int (length (memberUserIds (groups snap ! i))) = maxGroupMembers this
              \<and> truncated (groups snap ! i) = Some True)
         \<and> (int (length members) \<le> maxGroupMembers this \<longrightarrow>
              memberUserIds (groups snap ! i) = members
              \<and> truncated (groups snap ! i) = Some False)
         \<and> maxGroupMembers (newSnapshotBuilder \<lparr> opt_uidAllocator = ua, opt_gidAllocator = ga,
                opt_enabledFeatures = fs, opt_maxGroupMembers = None \<rparr>) = 5000
         \<and> (maxGroupMembers this = 5000 \<and> length members = 5001 \<longrightarrow>
              length (memberUserIds (groups snap ! i)) = 5000
              \<and> truncated (groups snap ! i) = Some True)"
proof -
  from buildSnapshot_groups [OF build fg] have
    len: "length rawGroups \<le> length (groups snap)"
    and ids: "map g_id (take (length rawGroups) (groups snap)) = map rg_id rawGroups"
    and ms: "map memberUserIds (take (length rawGroups) (groups snap)) = map (finalMembers this) rawGroups"
    and tr: "map truncated (take (length rawGroups) (groups snap)) = map (\<lambda>g. Some (isTruncated this g)) rawGroups"
    by simp_all
  have il: "i < length (groups snap)" using i len by simp
  have nth: "f (groups snap ! i) = map f (take (length rawGroups) (groups snap)) ! i" for f :: "Group \<Rightarrow> 'b"
    using i il by simp
  have 1: "g_id (groups snap ! i) = rg_id (rawGroups ! i)"
    using i by (simp add: nth [of g_id] ids)
  have 2: "memberUserIds (groups snap ! i) = finalMembers this (rawGroups ! i)"
    using i by (simp add: nth [of memberUserIds] ms)
  have 3: "truncated (groups snap ! i) = Some (isTruncated this (rawGroups ! i))"
    using i by (simp add: nth [of truncated] tr)
  have 4: "isTruncated this (rawGroups ! i) \<longleftrightarrow> int (length members) > maxGroupMembers this"
    by (simp add: isTruncated_def members)
  from finalMembers_length [OF nonneg, of "rawGroups ! i"] il 1 2 3 4 show ?thesis
    by (auto simp: members newSnapshotBuilder_def)
qed

theorem C8_group_truncation_witness:
  "memberUserIds (groups (projr (fst (buildSnapshot (exampleBuilder\<lparr> maxGroupMembers := 2 \<rparr>) exampleInput))) ! 0)
     = [''u1'', ''u2'']
   \<and> truncated (groups (projr (fst (buildSnapshot (exampleBuilder\<lparr> maxGroupMembers := 2 \<rparr>) exampleInput))) ! 0)
     = Some True
   \<and> memberUserIds (groups exampleSnapshot ! 0) = [''u1'', ''u2'', ''u3'']
   \<and> truncated (groups exampleSnapshot ! 0) = Some False"
proof -
  define B where "B = exampleBuilder\<lparr> maxGroupMembers := 2 \<rparr>"
  define G where "G = [\<lparr> rg_id = ''g1'', rg_name = ''staff'', rg_description = None,
                         rg_members = Some [''u1'', ''u2'', ''u3''] \<rparr>,
                       \<lparr> rg_id = ''g2'', rg_name = ''admins'', rg_description = None,
                         rg_members = Some [''u1''] \<rparr>]"
  have ok: "\<not> isl (fst (buildSnapshot B exampleInput))" unfolding B_def by code_simp
  then have build: "buildSnapshot B exampleInput =
      (Inr (projr (fst (buildSnapshot B exampleInput))), snd (buildSnapshot B exampleInput))"
    by (cases "buildSnapshot B exampleInput"; cases "fst (buildSnapshot B exampleInput)") auto
  have fg: "fetchGroups exampleInput = Inr G" by (simp add: exampleInput_def G_def)
  have nonneg: "0 \<le> maxGroupMembers B" by (simp add: B_def)
  have i: "(0::nat) < length G" by (simp add: G_def)
  have m: "[''u1'', ''u2'', ''u3''] = (case rg_members (G ! 0) of None \<Rightarrow> [] | Some ms \<Rightarrow> ms)"
    by (simp add: G_def)
  have build0: "buildSnapshot exampleBuilder exampleInput =
      (Inr exampleSnapshot, snd (buildSnapshot exampleBuilder exampleInput))"
    using exampleBuild by (cases "buildSnapshot exampleBuilder exampleInput") auto
  have nonneg0: "0 \<le> maxGroupMembers exampleBuilder" by code_simp
  have mx: "maxGroupMembers B = 2" "maxGroupMembers exampleBuilder = 5000"
    by (simp add: B_def, code_simp)
  from C8_group_truncation [OF build fg nonneg i m] C8_group_truncation [OF build0 fg nonneg0 i m] mx
  show ?thesis by (simp add: B_def)
qed

section \<open>UID numbers\<close>

text \<open>
  C9 (as stated): in every snapshot the builder produces, every user has a \<open>posixUid\<close>
  above the allocator floor, and no two users share a \<open>posixUid\<close>. Both parts fail. When
  the adaptor returns two enabled users with the same id, both get the id of the key
  \<open>user:u1\<close>. When the allocator was created with a sequential start below the floor and
  the hashed ids are rejected (here by the ceiling), the sequential ids 1 and 2 are
  handed out, which are not above the floor 10000.
\<close>

theorem C9_counterexample:
  "\<not> isl (fst (buildSnapshot exampleBuilder duplicateIdInput))
   \<and> map username (users (projr (fst (buildSnapshot exampleBuilder duplicateIdInput))))
       = [''alice'', ''alice2'']
   \<and> map posixUid (users (projr (fst (buildSnapshot exampleBuilder duplicateIdInput))))
       = [1932548082, 1932548082]
   \<and> \<not> isl (fst (buildSnapshot (exampleBuilder\<lparr> uidAllocator := lowStartAllocator \<rparr>) exampleInput))
   \<and> map posixUid (users (projr (fst (buildSnapshot (exampleBuilder\<lparr> uidAllocator := lowStartAllocator \<rparr>)
         exampleInput)))) = [1, 2]
   \<and> floor' lowStartAllocator = 10000"
  by code_simp

text \<open>
  C9 (amended): when the enabled users that the adaptor returns have pairwise distinct
  ids, and the UID allocator of the builder is consistent (its sequential counter and the
  ids it has handed out are above the floor, and its reverse map holds the key of each),
  every user of the snapshot has a \<open>posixUid\<close> above the allocator floor, no two users of
  the snapshot share a \<open>posixUid\<close>, and the allocator is consistent after the build. A new
  allocator is consistent when its sequential start is not given or is above the floor.
\<close>

theorem C9_uid_above_floor_unique:
  assumes inv: "allocatorConsistent (uidAllocator this)"
    and fetch: "fetchUsers inp = Inr rawUsers"
    and ids: "distinct (map ru_id (filter ru_enabled rawUsers))"
    and build: "buildSnapshot this inp = (Inr snap, this')"
  shows "(\<forall>u\<in>set (users snap). floor' (uidAllocator this) < posixUid u)
         \<and> distinct (map posixUid (users snap))
         \<and> allocatorConsistent (uidAllocator this')
         \<and> ((case opt_sequentialStart opts of
                None \<Rightarrow> True
              | Some s \<Rightarrow> (case opt_floor opts of None \<Rightarrow> 10000 | Some f \<Rightarrow> f) < s)
             \<longrightarrow> allocatorConsistent (newIdAllocator opts))"
proof -
  from buildSnapshot_stages [OF build] obtain rawUsers' rawGroups us uidA gs us1 gidA where
    fa: "fetchAll inp = Inr (rawUsers', rawGroups)"
    and cu': "convertUsers this (clock inp) 0 (filter ru_enabled rawUsers') (uidAllocator this) = (Inr us, uidA)"
    and pg: "processGroups this rawGroups us (gidAllocator this) = (Inr (gs, us1), gidA)"
    and snap: "users snap = us1" and this': "uidAllocator this' = uidA"
    by blast
  from fa fetch have "rawUsers' = rawUsers" by (simp add: fetchAll_Inr_iff)
  with cu' have cu:
    "convertUsers this (clock inp) 0 (filter ru_enabled rawUsers) (uidAllocator this) = (Inr us, uidA)"
    by simp
  from convertUsers_result [OF inv cu]
  have c: "allocatorConsistent uidA" "map u_id us = map ru_id (filter ru_enabled rawUsers)"
    "\<forall>u\<in>set us. floor' (uidAllocator this) < posixUid u
        \<and> map_of (byId (state uidA)) (posixUid u) = Some (''user:'' @ u_id u)"
    by simp_all
  from processGroups_users [OF pg]
  have same: "map posixUid us1 = map posixUid us" by simp
  have "distinct (map u_id us)" using c(2) ids by simp
  then have dus: "distinct us" and inj: "inj_on u_id (set us)"
    by (simp_all add: distinct_map)
  have "inj_on posixUid (set us)"
  proof (rule inj_onI)
    fix u v assume u: "u \<in> set us" and v: "v \<in> set us" and eq: "posixUid u = posixUid v"
    from c(3) u v eq have "''user:'' @ u_id u = ''user:'' @ u_id v" by (metis option.inject)
    then have "u_id u = u_id v" by simp
    with inj u v show "u = v" by (simp add: inj_on_def)
  qed
  with dus have d: "distinct (map posixUid us)" by (simp add: distinct_map)
  have f: "\<forall>p\<in>set (map posixUid us). floor' (uidAllocator this) < p"
    using c(3) by simp
  have 1: "\<forall>u\<in>set (users snap). floor' (uidAllocator this) < posixUid u"
    using f same snap by (metis (no_types, lifting) image_iff list.set_map)
  have 2: "distinct (map posixUid (users snap))" using d same snap by simp
  have 3: "allocatorConsistent (uidAllocator this')" using c(1) this' by simp
  have 4: "(case opt_sequentialStart opts of
                None \<Rightarrow> True
              | Some s \<Rightarrow> (case opt_floor opts of None \<Rightarrow> 10000 | Some f \<Rightarrow> f) < s)
             \<longrightarrow> allocatorConsistent (newIdAllocator opts)"
    by (simp add: newIdAllocator_consistent)
  from 1 2 3 4 show ?thesis by simp
qed

theorem C9_uid_above_floor_unique_witness:
  "distinct (map ru_id (filter ru_enabled (projr (fetchUsers exampleInput))))
   \<and> fst (buildSnapshot exampleBuilder exampleInput) = Inr exampleSnapshot
   \<and> floor' (uidAllocator exampleBuilder) = 10000
   \<and> list_all (\<lambda>u. 10000 < posixUid u) (users exampleSnapshot)
   \<and> distinct (map posixUid (users exampleSnapshot))"
proof -
  have inv: "allocatorConsistent (uidAllocator exampleBuilder)"
    by (simp add: exampleBuilder_def newSnapshotBuilder_def exampleUidAllocator_def
          newIdAllocator_consistent)
  have fetch: "fetchUsers exampleInput = Inr (projr (fetchUsers exampleInput))"
    by (simp add: exampleInput_def)
  have ids: "distinct (map ru_id (filter ru_enabled (projr (fetchUsers exampleInput))))"
    by (simp add: exampleInput_def)
  have build: "buildSnapshot exampleBuilder exampleInput =
      (Inr exampleSnapshot, snd (buildSnapshot exampleBuilder exampleInput))"
    using exampleBuild by (cases "buildSnapshot exampleBuilder exampleInput") auto
  have fl: "floor' (uidAllocator exampleBuilder) = 10000" by code_simp
  from C9_uid_above_floor_unique [OF inv fetch ids build] ids fl exampleBuild show ?thesis
    by (simp add: list_all_iff)
qed

end
